theory Spec2Isabelle
  imports Complex_Main "HOL-Library.Word" "HOL-Library.Monad_Syntax"
begin

section \<open>Overview\<close>

text \<open>
  A shallow embedding of the numerical core of the mayajiva module: the magnetic
  landscape (\<^verbatim>\<open>landscape.hpp\<close>), the compass sensor (\<^verbatim>\<open>compass.hpp\<close>), the ring attractor
  that estimates the heading (\<^verbatim>\<open>ring_attractor.hpp\<close>), the path integrator
  (\<^verbatim>\<open>path_integration.hpp\<close>) and the navigating agent that composes them (\<^verbatim>\<open>bug.hpp\<close>).
  The first part gives the definitions, one per function of the sources and in their
  order, followed by the scenarios of the tests and by the closed forms that the proofs
  compute with (each marked as such where it is introduced); the second part states and
  proves the properties.

  Conventions.  A class is a record of its data members and each method is a function
  that takes the object and returns the updated object.  A fixed-size array is a list of
  that length, a loop is \<open>for_loop\<close> over the list it fills or updates, in the order of
  the source.  The random generator, which the agent owns and lends to its compass and
  attractor by pointer, is passed to every function that draws and returned advanced.
\<close>

section \<open>Numeric conventions\<close>

text \<open>
  The C++ sources compute with \<^verbatim>\<open>double\<close>.  The embedding reads every \<^verbatim>\<open>double\<close> as a
  real number: rounding, overflow to infinity and NaN are outside the model.  The
  functions of \<^verbatim>\<open>cmath\<close> used by the sources are given their mathematical
  meaning on finite arguments.  Where a division by zero is the subject (the guarded
  divisions of the compass and the perturbations, the division by \<^verbatim>\<open>tau_\<close> in the rate
  update of the ring attractor), the function is given a second time with the zero
  divisor made visible.  Two places where the real-number reading would change a discrete
  result are modelled more closely: the quotient \<^verbatim>\<open>duration / dt\<close> that \<^verbatim>\<open>run\<close> truncates to
  its number of steps is rounded to the nearest double (\<open>round_double\<close>), and the
  \<^verbatim>\<open>std::atan2\<close> of the home vector takes the signs of its zero arguments
  (\<open>atan2_signed\<close>).
\<close>

text \<open>\<^verbatim>\<open>static_cast<int>(v)\<close> on a double truncates toward zero.\<close>

definition trunc_real :: "real \<Rightarrow> int" where
  "trunc_real v = (if 0 \<le> v then \<lfloor>v\<rfloor> else \<lceil>v\<rceil>)"

text \<open>\<^verbatim>\<open>std::fmod(a, b)\<close>: the remainder \<open>a - n * b\<close> with \<open>n\<close> the quotient truncated
  toward zero, so the result has the sign of \<open>a\<close>.\<close>

definition fmod :: "real \<Rightarrow> real \<Rightarrow> real" where
  "fmod a b = a - real_of_int (trunc_real (a / b)) * b"

text \<open>\<^verbatim>\<open>std::atan2(v, u)\<close>: the angle of the point \<open>(u, v)\<close> in \<open>(-\<pi>, \<pi>]\<close>.  The C++
  function tells \<^verbatim>\<open>+0.0\<close> from \<^verbatim>\<open>-0.0\<close>, which a real number cannot: this definition
  reads every zero argument as \<^verbatim>\<open>+0.0\<close>, and \<open>atan2_signed\<close> below takes the signs of the
  zeros as arguments.\<close>

definition atan2 :: "real \<Rightarrow> real \<Rightarrow> real" where
  "atan2 v u =
     (if 0 < u then arctan (v / u)
      else if u < 0 then (if 0 \<le> v then arctan (v / u) + pi else arctan (v / u) - pi)
      else if 0 < v then pi / 2
      else if v < 0 then - (pi / 2)
      else 0)"

text \<open>\<^verbatim>\<open>std::atan2(v, u)\<close> with the sign bits of its arguments: \<open>nv\<close> says that a zero \<open>v\<close>
  is \<^verbatim>\<open>-0.0\<close>, \<open>nu\<close> that a zero \<open>u\<close> is \<^verbatim>\<open>-0.0\<close>.  The signs matter where \<open>v\<close> is a
  zero and \<open>u\<close> is negative or a negative zero: there the function returns \<open>\<pi>\<close> for
  \<^verbatim>\<open>+0.0\<close> and \<open>-\<pi>\<close> for \<^verbatim>\<open>-0.0\<close>.  Elsewhere a zero result has the sign of \<open>v\<close> and is
  the real number 0.\<close>

definition atan2_signed :: "bool \<Rightarrow> bool \<Rightarrow> real \<Rightarrow> real \<Rightarrow> real" where
  "atan2_signed nv nu v u =
     (if v = 0 \<and> (u < 0 \<or> (u = 0 \<and> nu)) then (if nv then - pi else pi)
      else atan2 v u)"

text \<open>\<^verbatim>\<open>std::clamp(v, lo, hi)\<close> as the standard library writes it.\<close>

definition clamp :: "real \<Rightarrow> real \<Rightarrow> real \<Rightarrow> real" where
  "clamp v lo hi = (if v < lo then lo else if hi < v then hi else v)"

text \<open>A division that records a zero divisor: \<open>None\<close> stands for the non-finite
  value (infinity or NaN) that IEEE arithmetic produces there.\<close>

definition fdiv :: "real \<Rightarrow> real \<Rightarrow> real option" where
  "fdiv a b = (if b = 0 then None else Some (a / b))"

text \<open>
  The double nearest to a real number: IEEE 754 binary64, round to nearest, ties to
  even.  A nonzero \<open>x\<close> with \<open>2\<^sup>e \<le> \<bar>x\<bar> < 2\<^sup>e\<^sup>+\<^sup>1\<close> is rounded to a multiple of
  \<open>2\<^sup>e\<^sup>-\<^sup>5\<^sup>2\<close>, the spacing of the doubles of that binade.  The exponent is not bounded here:
  above \<open>2\<^sup>1\<^sup>0\<^sup>2\<^sup>4\<close> the hardware answers infinity, and below \<open>2\<^sup>-\<^sup>1\<^sup>0\<^sup>2\<^sup>2\<close> it rounds to a
  coarser grid.
\<close>

definition round_even :: "real \<Rightarrow> int" where
  "round_even m =
     (let f = \<lfloor>m\<rfloor>
      in if m - of_int f < 1 / 2 then f
         else if 1 / 2 < m - of_int f then f + 1
         else if even f then f else f + 1)"

definition round_double :: "real \<Rightarrow> real" where
  "round_double x =
     (if x = 0 then 0
      else (let e = \<lfloor>log 2 \<bar>x\<bar>\<rfloor>;
                u = 2 powr (of_int e - 52)
            in of_int (round_even (x / u)) * u))"

text \<open>The division \<^verbatim>\<open>a / b\<close> of two doubles: the exact quotient rounded to a double, \<open>None\<close>
  (infinity or NaN) for a zero divisor.\<close>

definition double_div :: "real \<Rightarrow> real \<Rightarrow> real option" where
  "double_div a b = map_option round_double (fdiv a b)"


section \<open>Landscape (landscape.hpp)\<close>

datatype GaussianAnomaly =
  GaussianAnomaly (g_px: real) (g_py: real) (g_strength: real) (g_radius: real)

datatype DipoleAnomaly =
  DipoleAnomaly (d_px: real) (d_py: real) (d_strength: real) (d_depth: real)

datatype FaultAnomaly =
  FaultAnomaly (f_px: real) (f_py: real) (f_azimuth: real) (f_contrast: real) (f_width: real)

datatype GradientAnomaly =
  GradientAnomaly (gr_magnitude: real) (gr_direction: real) (gr_ref_x: real) (gr_ref_y: real)

datatype Anomaly =
  Gaussian GaussianAnomaly
| Dipole DipoleAnomaly
| Fault FaultAnomaly
| Gradient GradientAnomaly

record FieldResult =
  direction :: real
  intensity :: real
  inclination :: real

type_synonym Vec3 = "real \<times> real \<times> real"

text \<open>A private data member \<^verbatim>\<open>name_\<close> of a C++ class is the record field \<open>m_name\<close>.\<close>

record Landscape =
  m_width :: real
  m_height :: real
  m_B0 :: real
  m_declination :: real
  m_inclination :: real
  m_B_horizontal :: real
  m_B_vertical :: real
  m_anomalies :: "Anomaly list"

text \<open>The constructor derives the horizontal and vertical background field.\<close>

definition new_Landscape :: "real \<Rightarrow> real \<Rightarrow> real \<Rightarrow> real \<Rightarrow> real \<Rightarrow> Landscape" where
  "new_Landscape width height B0 declination incl =
     \<lparr> m_width = width, m_height = height, m_B0 = B0,
       m_declination = declination, m_inclination = incl,
       m_B_horizontal = B0 * cos incl,
       m_B_vertical = B0 * sin incl,
       m_anomalies = [] \<rparr>"

definition add_anomaly :: "Landscape \<Rightarrow> Anomaly \<Rightarrow> Landscape" where
  "add_anomaly land a = land\<lparr>m_anomalies := m_anomalies land @ [a]\<rparr>"

definition clear_anomalies :: "Landscape \<Rightarrow> Landscape" where
  "clear_anomalies land = land\<lparr>m_anomalies := []\<rparr>"

definition perturbation_Gaussian :: "real \<Rightarrow> real \<Rightarrow> GaussianAnomaly \<Rightarrow> Vec3" where
  "perturbation_Gaussian x y a =
     (let dx = x - g_px a;
          dy = y - g_py a;
          r = sqrt (dx * dx + dy * dy)
      in if r \<ge> 3 * g_radius a then (0, 0, 0)
         else let envelope = g_strength a * exp (- 0.5 * (r / g_radius a) * (r / g_radius a))
              in if r < 1 / 10 ^ 6 then (0, 0, 0)
                 else (envelope * dx / r, envelope * dy / r, 0))"

definition perturbation_Dipole :: "real \<Rightarrow> real \<Rightarrow> DipoleAnomaly \<Rightarrow> Vec3" where
  "perturbation_Dipole x y a =
     (let dx = x - d_px a;
          dy = y - d_py a;
          rho2 = dx * dx + dy * dy;
          R2 = rho2 + d_depth a * d_depth a;
          R5 = R2 powr 2.5;
          alpha = d_strength a * (5 powr 2.5) * (d_depth a) ^ 3 / 48;
          dBx = alpha * 3 * d_depth a * dx / R5;
          dBy = alpha * 3 * d_depth a * dy / R5;
          dBz = alpha * (2 * d_depth a * d_depth a - rho2) / R5
      in (dBx, dBy, dBz))"

definition perturbation_Fault :: "real \<Rightarrow> real \<Rightarrow> FaultAnomaly \<Rightarrow> Vec3" where
  "perturbation_Fault x y a =
     (let d_perp = (x - f_px a) * sin (f_azimuth a) - (y - f_py a) * cos (f_azimuth a);
          profile = tanh (d_perp / f_width a);
          dBx = (f_contrast a / 2) * profile * sin (f_azimuth a);
          dBy = - (f_contrast a / 2) * profile * cos (f_azimuth a)
      in (dBx, dBy, 0))"

definition perturbation_Gradient :: "real \<Rightarrow> real \<Rightarrow> GradientAnomaly \<Rightarrow> Vec3" where
  "perturbation_Gradient x y a =
     (let s = (x - gr_ref_x a) * cos (gr_direction a) + (y - gr_ref_y a) * sin (gr_direction a);
          dBx = gr_magnitude a * s * cos (gr_direction a);
          dBy = gr_magnitude a * s * sin (gr_direction a)
      in (dBx, dBy, 0))"

text \<open>\<^verbatim>\<open>std::visit\<close> over the closed variant.\<close>

fun anomaly_perturbation :: "real \<Rightarrow> real \<Rightarrow> Anomaly \<Rightarrow> Vec3" where
  "anomaly_perturbation x y (Gaussian a) = perturbation_Gaussian x y a"
| "anomaly_perturbation x y (Dipole a) = perturbation_Dipole x y a"
| "anomaly_perturbation x y (Fault a) = perturbation_Fault x y a"
| "anomaly_perturbation x y (Gradient a) = perturbation_Gradient x y a"

text \<open>The body of the loop over the anomaly list: add one perturbation to the field.\<close>

definition add_perturbation :: "real \<Rightarrow> real \<Rightarrow> Anomaly \<Rightarrow> Vec3 \<Rightarrow> Vec3" where
  "add_perturbation x y anom B =
     (case B of (Bx, By, Bz) \<Rightarrow>
        (case anomaly_perturbation x y anom of (dBx, dBy, dBz) \<Rightarrow>
           (Bx + dBx, By + dBy, Bz + dBz)))"

definition magnetic_direction :: "Landscape \<Rightarrow> real \<Rightarrow> real \<Rightarrow> FieldResult" where
  "magnetic_direction land x y =
     (let Bx0 = m_B_horizontal land * cos (m_declination land);
          By0 = m_B_horizontal land * sin (m_declination land);
          Bz0 = m_B_vertical land
      in case fold (add_perturbation x y) (m_anomalies land) (Bx0, By0, Bz0) of
           (Bx, By, Bz) \<Rightarrow>
             (let B_h = sqrt (Bx * Bx + By * By);
                  dir = atan2 By Bx;
                  local_incl = atan2 Bz B_h
              in \<lparr> direction = dir, intensity = B_h, inclination = local_incl \<rparr>))"

definition direction_deviation :: "Landscape \<Rightarrow> real \<Rightarrow> real \<Rightarrow> real" where
  "direction_deviation land x y =
     (let dir = direction (magnetic_direction land x y);
          delta = dir - m_declination land;
          delta = fmod (delta + pi) (2 * pi);
          delta = (if delta < 0 then delta + 2 * pi else delta);
          delta = delta - pi
      in delta)"

definition in_bounds :: "Landscape \<Rightarrow> real \<Rightarrow> real \<Rightarrow> bool" where
  "in_bounds land x y \<longleftrightarrow> x \<ge> 0 \<and> x \<le> m_width land \<and> y \<ge> 0 \<and> y \<le> m_height land"


section \<open>Loops and the pseudorandom generator\<close>

text \<open>A counted loop \<^verbatim>\<open>for (int i = 0; i < n; ++i) body\<close> over a state.\<close>

definition for_loop :: "nat \<Rightarrow> (nat \<Rightarrow> 's \<Rightarrow> 's) \<Rightarrow> 's \<Rightarrow> 's" where
  "for_loop n body s = fold body [0..<n] s"

text \<open>The idiom "wrap to \<open>[-\<pi>, \<pi>]\<close>" that the sources write inline:
  \<^verbatim>\<open>d = fmod(d + M_PI, 2*M_PI); if (d < 0) d += 2*M_PI; d -= M_PI;\<close>\<close>

definition wrap_pi :: "real \<Rightarrow> real" where
  "wrap_pi d =
     (let d1 = fmod (d + pi) (2 * pi);
          d2 = (if d1 < 0 then d1 + 2 * pi else d1)
      in d2 - pi)"

text \<open>
  \<^verbatim>\<open>std::mt19937\<close> and the distributions of \<^verbatim>\<open>random\<close> that draw from it are a
  deterministic machine whose code is not part of the repository.  A generator state
  offers, for each distribution the sources use, the variate that the next draw returns
  and the state after that draw; every deterministic generator is such a state.
\<close>

codatatype rng = Rng
  (normal_out: real) (normal_next: rng)
  (uniform_real_out: "real \<Rightarrow> real \<Rightarrow> real") (uniform_real_next: "real \<Rightarrow> real \<Rightarrow> rng")
  (uniform_int_out: "int \<Rightarrow> int \<Rightarrow> int") (uniform_int_next: "int \<Rightarrow> int \<Rightarrow> rng")

text \<open>\<^verbatim>\<open>std::normal_distribution<double> dist(mean, stddev); dist(rng)\<close> scales and shifts
  a standard normal variate.  What a distribution object may cache between two calls is
  part of the generator state here.\<close>

definition normal_distribution :: "real \<Rightarrow> real \<Rightarrow> rng \<Rightarrow> real \<times> rng" where
  "normal_distribution mean stddev g = (normal_out g * stddev + mean, normal_next g)"

definition uniform_real_distribution :: "real \<Rightarrow> real \<Rightarrow> rng \<Rightarrow> real \<times> rng" where
  "uniform_real_distribution a b g = (uniform_real_out g a b, uniform_real_next g a b)"

definition uniform_int_distribution :: "int \<Rightarrow> int \<Rightarrow> rng \<Rightarrow> int \<times> rng" where
  "uniform_int_distribution a b g = (uniform_int_out g a b, uniform_int_next g a b)"

text \<open>A generator for concrete evaluation: every normal variate is \<open>z\<close>, every
  uniform variate is the lower end of its range.\<close>

primcorec const_rng :: "real \<Rightarrow> rng" where
  "const_rng z = Rng z (const_rng z) (\<lambda>a b. a) (\<lambda>a b. const_rng z) (\<lambda>a b. a) (\<lambda>a b. const_rng z)"

text \<open>The only exception of the core: \<^verbatim>\<open>std::vector::resize\<close> with a size beyond
  \<^verbatim>\<open>max_size()\<close>.\<close>

datatype error = length_error


section \<open>Compass sensor (compass.hpp)\<close>

definition singlet_yield :: "real \<Rightarrow> real \<Rightarrow> real \<Rightarrow> real" where
  "singlet_yield alpha contrast mean_yield =
     (let delta = contrast * mean_yield
      in mean_yield + 0.5 * delta * (1 + cos (2 * alpha)))"

text \<open>The template parameter \<^verbatim>\<open>N_CHANNELS\<close>; the agent instantiates it with 8, which is
  also its default.\<close>

definition N_CHANNELS :: nat where
  "N_CHANNELS = 8"

definition TWO_PI :: real where
  "TWO_PI = 2 * pi"

text \<open>The assignments are channel indices (\<^verbatim>\<open>int\<close> values that the constructor takes
  from the loop variable \<open>c\<close>), the channel counts are \<^verbatim>\<open>int\<close>.\<close>

record CompassSensor =
  m_n_cry :: int
  m_contrast :: real
  m_mean_yield :: real
  m_sigma_sensor :: real
  m_phi :: "real list"
  m_assignments :: "nat list"
  m_channel_counts :: "int list"

text \<open>The inner loop of \<^verbatim>\<open>init_molecules\<close>: one comparison of a molecule with a channel
  centre; the state is \<open>(best_dist, best_c)\<close>.\<close>

definition nearest_step :: "real list \<Rightarrow> real \<Rightarrow> nat \<Rightarrow> real \<times> nat \<Rightarrow> real \<times> nat" where
  "nearest_step centres phi_k c best =
     (case best of (best_dist, best_c) \<Rightarrow>
        (let d = \<bar>wrap_pi (phi_k - centres ! c)\<bar>
         in if d < best_dist then (d, c) else (best_dist, best_c)))"

definition nearest_channel :: "real list \<Rightarrow> real \<Rightarrow> nat" where
  "nearest_channel centres phi_k = snd (for_loop N_CHANNELS (nearest_step centres phi_k) (10 ^ 30, 0))"

text \<open>The outer assignment loop: the state is \<open>(assignments, channel_counts)\<close>.\<close>

definition assign_step ::
  "real list \<Rightarrow> real list \<Rightarrow> nat \<Rightarrow> nat list \<times> int list \<Rightarrow> nat list \<times> int list" where
  "assign_step centres phi k st =
     (case st of (assignments, channel_counts) \<Rightarrow>
        (let best_c = nearest_channel centres (phi ! k)
         in (assignments[k := best_c],
             channel_counts[best_c := channel_counts ! best_c + 1])))"

definition init_molecules :: "CompassSensor \<Rightarrow> CompassSensor" where
  "init_molecules s =
     (let n = nat (m_n_cry s);
          phi0 = replicate n 0;
          assignments0 = replicate n 0;
          counts0 = replicate N_CHANNELS 0;
          centres = for_loop N_CHANNELS
                      (\<lambda>c cs. cs[c := TWO_PI * real c / real N_CHANNELS]) (replicate N_CHANNELS 0);
          phi = for_loop n (\<lambda>k ph. ph[k := TWO_PI * real k / real_of_int (m_n_cry s)]) phi0
      in case for_loop n (assign_step centres phi) (assignments0, counts0) of
           (assignments, counts) \<Rightarrow>
             s\<lparr>m_phi := phi, m_assignments := assignments, m_channel_counts := counts\<rparr>)"

text \<open>The constructor.  \<^verbatim>\<open>phi_.resize(n_cry_)\<close> converts a negative \<^verbatim>\<open>int\<close> to a size
  beyond \<^verbatim>\<open>max_size()\<close> and throws \<^verbatim>\<open>std::length_error\<close>.  The generator pointer is
  not stored: \<open>read\<close> takes the generator and returns it advanced.\<close>

definition new_CompassSensor :: "int \<Rightarrow> real \<Rightarrow> real \<Rightarrow> real \<Rightarrow> error + CompassSensor" where
  "new_CompassSensor n_cry contrast mean_yield sigma_sensor =
     (if n_cry < 0 then Inl length_error
      else Inr (init_molecules
        \<lparr> m_n_cry = n_cry, m_contrast = contrast, m_mean_yield = mean_yield,
          m_sigma_sensor = sigma_sensor, m_phi = [], m_assignments = [],
          m_channel_counts = replicate N_CHANNELS 0 \<rparr>))"

text \<open>The first loop of \<^verbatim>\<open>read\<close>: the state is \<open>(chan_sums, generator)\<close>, for the array \<^verbatim>\<open>sums\<close>.\<close>

definition read_step :: "CompassSensor \<Rightarrow> real \<Rightarrow> nat \<Rightarrow> real list \<times> rng \<Rightarrow> real list \<times> rng" where
  "read_step s heading k st =
     (case st of (chan_sums, g) \<Rightarrow>
        (let alpha = heading - m_phi s ! k;
             y = singlet_yield alpha (m_contrast s) (m_mean_yield s)
         in case (if m_sigma_sensor s > 0
                  then (case normal_distribution 0 (m_sigma_sensor s) g of (e, g') \<Rightarrow> (y + e, g'))
                  else (y, g)) of
              (y', g') \<Rightarrow> (chan_sums[m_assignments s ! k := chan_sums ! (m_assignments s ! k) + y'], g')))"

text \<open>The second loop of \<^verbatim>\<open>read\<close>: the guarded channel average.\<close>

definition average_step :: "CompassSensor \<Rightarrow> real list \<Rightarrow> nat \<Rightarrow> real list \<Rightarrow> real list" where
  "average_step s chan_sums c channels =
     (if m_channel_counts s ! c > 0
      then channels[c := chan_sums ! c / real_of_int (m_channel_counts s ! c)]
      else channels)"

definition read :: "CompassSensor \<Rightarrow> real \<Rightarrow> rng \<Rightarrow> real list \<times> rng" where
  "read s heading g =
     (case for_loop (nat (m_n_cry s)) (read_step s heading) (replicate N_CHANNELS 0, g) of
        (chan_sums, g') \<Rightarrow>
          (for_loop N_CHANNELS (average_step s chan_sums) (replicate N_CHANNELS 0), g'))"

text \<open>The same two loops with the division made explicit: \<open>None\<close> as soon as a
  divisor is zero.\<close>

definition average_step_checked ::
  "CompassSensor \<Rightarrow> real list \<Rightarrow> nat \<Rightarrow> real list option \<Rightarrow> real list option" where
  "average_step_checked s chan_sums c channels =
     (if m_channel_counts s ! c > 0
      then do { ch \<leftarrow> channels;
                q \<leftarrow> fdiv (chan_sums ! c) (real_of_int (m_channel_counts s ! c));
                Some (ch[c := q]) }
      else channels)"

definition read_checked :: "CompassSensor \<Rightarrow> real \<Rightarrow> rng \<Rightarrow> real list option \<times> rng" where
  "read_checked s heading g =
     (case for_loop (nat (m_n_cry s)) (read_step s heading) (replicate N_CHANNELS 0, g) of
        (chan_sums, g') \<Rightarrow>
          (for_loop N_CHANNELS (average_step_checked s chan_sums) (Some (replicate N_CHANNELS 0)), g'))"

text \<open>The invariant of the assignment loop after \<open>k\<close> of \<open>n\<close> molecules.\<close>

definition assign_inv :: "nat \<Rightarrow> nat \<Rightarrow> nat list \<times> int list \<Rightarrow> bool" where
  "assign_inv n k st \<longleftrightarrow>
     length (fst st) = n \<and> length (snd st) = N_CHANNELS
     \<and> (\<forall>j<k. fst st ! j < N_CHANNELS)
     \<and> (\<forall>c<N_CHANNELS. snd st ! c = int (card {j. j < k \<and> fst st ! j = c}))"


section \<open>Division by zero in the perturbations\<close>

text \<open>The perturbations that divide (Gaussian, Dipole, Fault) once more, with every
  division of the source made explicit.\<close>

definition perturbation_Gaussian_checked :: "real \<Rightarrow> real \<Rightarrow> GaussianAnomaly \<Rightarrow> Vec3 option" where
  "perturbation_Gaussian_checked x y a =
     (let dx = x - g_px a;
          dy = y - g_py a;
          r = sqrt (dx * dx + dy * dy)
      in if r \<ge> 3 * g_radius a then Some (0, 0, 0)
         else do {
           q \<leftarrow> fdiv r (g_radius a);
           let envelope = g_strength a * exp (- 0.5 * q * q);
           if r < 1 / 10 ^ 6 then Some (0, 0, 0)
           else do {
             u \<leftarrow> fdiv (envelope * dx) r;
             v \<leftarrow> fdiv (envelope * dy) r;
             Some (u, v, 0)
           }
         })"

definition perturbation_Dipole_checked :: "real \<Rightarrow> real \<Rightarrow> DipoleAnomaly \<Rightarrow> Vec3 option" where
  "perturbation_Dipole_checked x y a =
     (let dx = x - d_px a;
          dy = y - d_py a;
          rho2 = dx * dx + dy * dy;
          R2 = rho2 + d_depth a * d_depth a;
          R5 = R2 powr 2.5;
          alpha = d_strength a * (5 powr 2.5) * (d_depth a) ^ 3 / 48
      in do {
           dBx \<leftarrow> fdiv (alpha * 3 * d_depth a * dx) R5;
           dBy \<leftarrow> fdiv (alpha * 3 * d_depth a * dy) R5;
           dBz \<leftarrow> fdiv (alpha * (2 * d_depth a * d_depth a - rho2)) R5;
           Some (dBx, dBy, dBz)
         })"

definition perturbation_Fault_checked :: "real \<Rightarrow> real \<Rightarrow> FaultAnomaly \<Rightarrow> Vec3 option" where
  "perturbation_Fault_checked x y a =
     (let d_perp = (x - f_px a) * sin (f_azimuth a) - (y - f_py a) * cos (f_azimuth a)
      in do {
           q \<leftarrow> fdiv d_perp (f_width a);
           let profile = tanh q;
           let dBx = (f_contrast a / 2) * profile * sin (f_azimuth a);
           let dBy = - (f_contrast a / 2) * profile * cos (f_azimuth a);
           Some (dBx, dBy, 0)
         })"


section \<open>Path integration (path_integration.hpp)\<close>

text \<open>The template parameter \<^verbatim>\<open>N\<close> of \<^verbatim>\<open>CPU4\<close> and \<^verbatim>\<open>RingAttractor\<close>; the agent
  instantiates both with 8, which is also the default.\<close>

definition N :: nat where "N = 8"

record CPU4 =
  m_leak :: real
  m_gain :: real
  m_cpu4_phi :: "real list"
  m_memory :: "real list"

record HomeVector =
  hv_distance :: real
  hv_direction :: real

definition new_CPU4 :: "real \<Rightarrow> real \<Rightarrow> CPU4" where
  "new_CPU4 leak gain =
     \<lparr> m_leak = leak, m_gain = gain,
       m_cpu4_phi = for_loop N (\<lambda>i ph. ph[i := 2 * pi * real i / real N]) (replicate N 0),
       m_memory = replicate N 0 \<rparr>"

definition update_step :: "CPU4 \<Rightarrow> real \<Rightarrow> real \<Rightarrow> real \<Rightarrow> nat \<Rightarrow> real list \<Rightarrow> real list" where
  "update_step c heading speed dt i memory =
     (let cos_val = cos (heading - m_cpu4_phi c ! i);
          drive = m_gain c * speed * max cos_val 0;
          memory1 = (if m_leak c > 0 then memory[i := memory ! i * (1 - m_leak c * dt)] else memory)
      in memory1[i := memory1 ! i + drive * dt])"

definition update :: "CPU4 \<Rightarrow> real \<Rightarrow> real \<Rightarrow> real \<Rightarrow> CPU4" where
  "update c heading speed dt =
     c\<lparr>m_memory := for_loop N (update_step c heading speed dt) (m_memory c)\<rparr>"

definition displacement_step :: "CPU4 \<Rightarrow> nat \<Rightarrow> real \<times> real \<Rightarrow> real \<times> real" where
  "displacement_step c i d =
     (case d of (dx, dy) \<Rightarrow>
        (dx + m_memory c ! i * cos (m_cpu4_phi c ! i),
         dy + m_memory c ! i * sin (m_cpu4_phi c ! i)))"

definition displacement :: "CPU4 \<Rightarrow> real \<times> real" where
  "displacement c = for_loop N (displacement_step c) (0, 0)"

text \<open>
  \<^verbatim>\<open>home_vector()\<close> calls \<^verbatim>\<open>std::atan2(-dy, -dx)\<close> on the negated sums.  Walking along an
  axis makes \<open>dy\<close> or \<open>dx\<close> zero in exact arithmetic, and then the sign of the zero decides
  between \<open>\<pi>\<close> and \<open>-\<pi>\<close>.  A sum that the code computes as exactly zero is \<^verbatim>\<open>+0.0\<close> (the
  accumulators start at \<^verbatim>\<open>0.0\<close>), so its negation is \<^verbatim>\<open>-0.0\<close>; a sum that is zero only
  in exact arithmetic can leave the rounded computation as a tiny number of either
  sign.  The real-number reading does not determine which, so the signs are arguments:
  \<open>nv\<close> says that \<^verbatim>\<open>-dy\<close>, when zero here, is negative in the code (\<^verbatim>\<open>-0.0\<close> or rounded
  below zero), \<open>nu\<close> the same for \<^verbatim>\<open>-dx\<close>.
\<close>

definition home_vector :: "bool \<Rightarrow> bool \<Rightarrow> CPU4 \<Rightarrow> HomeVector" where
  "home_vector nv nu c =
     (case displacement c of (dx, dy) \<Rightarrow>
        (let dist = sqrt (dx * dx + dy * dy);
             home_dir = atan2_signed nv nu (- dy) (- dx)
         in \<lparr> hv_distance = dist, hv_direction = home_dir \<rparr>))"

definition reset_CPU4 :: "CPU4 \<Rightarrow> CPU4" where
  "reset_CPU4 c = c\<lparr>m_memory := replicate N 0\<rparr>"


section \<open>Ring attractor (ring_attractor.hpp)\<close>

record RingAttractor =
  m_tau :: real
  m_w_exc :: real
  m_w_inh :: real
  m_g_mag :: real
  m_g_omega :: real
  m_threshold :: real
  m_r_max :: real
  m_noise_sigma :: real
  m_theta :: "real list"
  m_W_exc :: "real list list"
  m_r :: "real list"

definition init_connectivity :: "RingAttractor \<Rightarrow> RingAttractor" where
  "init_connectivity ra =
     (let theta = for_loop N (\<lambda>i th. th[i := 2 * pi * real i / real N]) (m_theta ra);
          W = for_loop N (\<lambda>i W.
                for_loop N (\<lambda>j W.
                  (let d = theta ! i - theta ! j
                   in W[i := (W ! i)[j := m_w_exc ra * max 0 (cos d)]])) W) (m_W_exc ra)
      in ra\<lparr>m_theta := theta, m_W_exc := W\<rparr>)"

definition init_bump :: "RingAttractor \<Rightarrow> rng \<Rightarrow> RingAttractor \<times> rng" where
  "init_bump ra g =
     (case uniform_int_distribution 0 (int N - 1) g of (idx, g') \<Rightarrow>
        (ra\<lparr>m_r := for_loop N (\<lambda>i r.
                  (let d = \<bar>int i - idx\<bar>;
                       d = min d (int N - d)
                   in r[i := max 0 (0.5 - 0.15 * real_of_int d)])) (m_r ra)\<rparr>, g'))"

text \<open>The constructor; the generator is the one the caller lends (or the attractor's
  own), and \<^verbatim>\<open>init_bump\<close> draws from it once.\<close>

definition new_RingAttractor ::
  "real \<Rightarrow> real \<Rightarrow> real \<Rightarrow> real \<Rightarrow> real \<Rightarrow> real \<Rightarrow> real \<Rightarrow> real \<Rightarrow> rng \<Rightarrow> RingAttractor \<times> rng" where
  "new_RingAttractor tau w_exc w_inh g_mag g_omega threshold r_max noise_sigma g =
     init_bump
       ((init_connectivity
          \<lparr> m_tau = tau, m_w_exc = w_exc, m_w_inh = w_inh, m_g_mag = g_mag,
            m_g_omega = g_omega, m_threshold = threshold, m_r_max = r_max,
            m_noise_sigma = noise_sigma, m_theta = replicate N 0,
            m_W_exc = replicate N (replicate N 0), m_r = replicate N 0 \<rparr>)
        \<lparr>m_r := replicate N 0\<rparr>) g"

text \<open>\<^verbatim>\<open>heading()\<close>: population vector decode.  \<^verbatim>\<open>std::abs\<close> of a complex number is its
  modulus, \<^verbatim>\<open>std::arg\<close> is \<open>atan2\<close> of its imaginary and real part.\<close>

definition arg_complex :: "complex \<Rightarrow> real" where
  "arg_complex z = atan2 (Im z) (Re z)"

definition RingAttractor_heading :: "RingAttractor \<Rightarrow> real" where
  "RingAttractor_heading ra =
     (let z = for_loop N (\<lambda>i z. z + complex_of_real (m_r ra ! i) * exp (Complex 0 (m_theta ra ! i))) 0
      in if cmod z < 1 / 10 ^ 10 then 0
         else (let h = arg_complex z in if h < 0 then h + 2 * pi else h))"

definition bump_amplitude :: "RingAttractor \<Rightarrow> real" where
  "bump_amplitude ra = Max (set (m_r ra)) - Min (set (m_r ra))"

text \<open>\<^verbatim>\<open>reset(heading)\<close>: a negative argument (the default) asks for a random bump.\<close>

definition RingAttractor_reset :: "RingAttractor \<Rightarrow> real \<Rightarrow> rng \<Rightarrow> RingAttractor \<times> rng" where
  "RingAttractor_reset ra h g =
     (let ra0 = ra\<lparr>m_r := replicate N 0\<rparr>
      in if h \<ge> 0
         then (ra0\<lparr>m_r := for_loop N (\<lambda>i r.
                   (let diff = wrap_pi (m_theta ra0 ! i - h)
                    in r[i := max 0 (0.5 * cos diff)])) (m_r ra0)\<rparr>, g)
         else init_bump ra0 g)"

text \<open>The neighbours on the ring, in \<^verbatim>\<open>int\<close> arithmetic as the source writes them.\<close>

definition ring_prev :: "nat \<Rightarrow> nat" where
  "ring_prev i = nat ((int i - 1 + int N) mod int N)"

definition ring_next :: "nat \<Rightarrow> nat" where
  "ring_next i = nat ((int i + 1) mod int N)"

definition excitation :: "RingAttractor \<Rightarrow> real list" where
  "excitation ra =
     for_loop N (\<lambda>i exc.
       (let s = for_loop N (\<lambda>j s. s + m_W_exc ra ! i ! j * m_r ra ! j) 0
        in exc[i := s])) (replicate N 0)"

definition magnetic_input :: "RingAttractor \<Rightarrow> real list option \<Rightarrow> real list" where
  "magnetic_input ra compass_input =
     (case compass_input of
        None \<Rightarrow> replicate N 0
      | Some ci \<Rightarrow>
          (let mean_c = for_loop N (\<lambda>i m. m + ci ! i) 0 / real N;
               z_compass = for_loop N (\<lambda>i z.
                   (let c = ci ! i - mean_c
                    in z + complex_of_real c * exp (Complex 0 (2 * m_theta ra ! i)))) 0
           in if cmod z_compass > 1 / 10 ^ 10
              then (let double_heading = arg_complex z_compass;
                        double_bump = 2 * RingAttractor_heading ra;
                        error = arg_complex (exp (Complex 0 (double_heading - double_bump))) / 2
                    in for_loop N (\<lambda>i I_mag.
                         (let ip = ring_prev i;
                              im = ring_next i;
                              bump_grad = m_r ra ! ip - m_r ra ! im
                          in I_mag[i := m_g_mag ra * error * bump_grad])) (replicate N 0))
              else replicate N 0))"

definition omega_input :: "RingAttractor \<Rightarrow> real \<Rightarrow> real list" where
  "omega_input ra angular_velocity =
     (if angular_velocity \<noteq> 0
      then for_loop N (\<lambda>i I_omega.
             (let ip = ring_prev i;
                  im = ring_next i
              in I_omega[i := m_g_omega ra * angular_velocity * (m_r ra ! ip - m_r ra ! im)]))
             (replicate N 0)
      else replicate N 0)"

definition neural_noise :: "RingAttractor \<Rightarrow> rng \<Rightarrow> real list \<times> rng" where
  "neural_noise ra g =
     (if m_noise_sigma ra > 0
      then for_loop N (\<lambda>i st.
             (case st of (noise, g1) \<Rightarrow>
                (case normal_distribution 0 (m_noise_sigma ra) g1 of (e, g2) \<Rightarrow>
                   (noise[i := e], g2)))) (replicate N 0, g)
      else (replicate N 0, g))"

text \<open>The body of the last loop of \<^verbatim>\<open>step\<close>.  The division by \<^verbatim>\<open>tau_\<close> is the division of
  real numbers; \<open>rate_update_checked\<close> below makes a zero \<^verbatim>\<open>tau_\<close> visible.\<close>

definition rate_step ::
  "RingAttractor \<Rightarrow> real \<Rightarrow> real list \<Rightarrow> real \<Rightarrow> real list \<Rightarrow> real list \<Rightarrow> real list
     \<Rightarrow> nat \<Rightarrow> real list \<Rightarrow> real list" where
  "rate_step ra dt exc inh I_mag I_omega noise i r =
     (let drive = exc ! i - inh + I_mag ! i + I_omega ! i - m_threshold ra + noise ! i;
          activated = clamp drive 0 (m_r_max ra);
          dr = (- r ! i + activated) / m_tau ra
      in r[i := clamp (r ! i + dr * dt) 0 (m_r_max ra)])"

text \<open>\<^verbatim>\<open>step(dt, compass_input, angular_velocity)\<close>; a null \<^verbatim>\<open>compass_input\<close> is \<open>None\<close>.\<close>

definition RingAttractor_step :: "RingAttractor \<Rightarrow> real \<Rightarrow> real list option \<Rightarrow> real \<Rightarrow> rng \<Rightarrow> RingAttractor \<times> rng" where
  "RingAttractor_step ra dt compass_input angular_velocity g =
     (let exc = excitation ra;
          mean_r = for_loop N (\<lambda>i m. m + m_r ra ! i) 0 / real N;
          inh = m_w_inh ra * mean_r;
          I_mag = magnetic_input ra compass_input;
          I_omega = omega_input ra angular_velocity
      in case neural_noise ra g of (noise, g') \<Rightarrow>
           (ra\<lparr>m_r := for_loop N (rate_step ra dt exc inh I_mag I_omega noise) (m_r ra)\<rparr>, g'))"

text \<open>
  The rate update with the division by \<^verbatim>\<open>tau_\<close> made visible; \<open>None\<close> is NaN.  With
  \<^verbatim>\<open>tau_\<close> zero (read as \<^verbatim>\<open>+0.0\<close>) the quotient \<^verbatim>\<open>(-r_[i] + activated) / tau_\<close> is NaN for
  a zero numerator and an infinity with the sign of the numerator otherwise.  The
  product with \<^verbatim>\<open>dt\<close> keeps a NaN and turns an infinity into NaN when \<^verbatim>\<open>dt\<close> is zero; the
  sum with \<^verbatim>\<open>r_[i]\<close> keeps both.  \<^verbatim>\<open>std::clamp\<close> returns \<^verbatim>\<open>r_max_\<close> for plus infinity and 0
  for minus infinity, and a NaN unchanged, since both of its comparisons are false.
\<close>

definition rate_update_checked :: "real \<Rightarrow> real \<Rightarrow> real \<Rightarrow> real \<Rightarrow> real \<Rightarrow> real option" where
  "rate_update_checked tau r_max dt r activated =
     (if tau \<noteq> 0 then Some (clamp (r + (- r + activated) / tau * dt) 0 r_max)
      else if - r + activated = 0 \<or> dt = 0 then None
      else if 0 < (- r + activated) * dt then Some r_max
      else Some 0)"

text \<open>The last loop of \<^verbatim>\<open>step\<close> and \<^verbatim>\<open>step\<close> itself on rates that may be NaN; the
  attractor it starts from holds finite rates, and the result is the new rate array.\<close>

definition rate_step_checked ::
  "RingAttractor \<Rightarrow> real \<Rightarrow> real list \<Rightarrow> real \<Rightarrow> real list \<Rightarrow> real list \<Rightarrow> real list
     \<Rightarrow> nat \<Rightarrow> real option list \<Rightarrow> real option list" where
  "rate_step_checked ra dt exc inh I_mag I_omega noise i r =
     (let drive = exc ! i - inh + I_mag ! i + I_omega ! i - m_threshold ra + noise ! i;
          activated = clamp drive 0 (m_r_max ra)
      in r[i := r ! i \<bind> (\<lambda>ri. rate_update_checked (m_tau ra) (m_r_max ra) dt ri activated)])"

definition RingAttractor_step_checked ::
  "RingAttractor \<Rightarrow> real \<Rightarrow> real list option \<Rightarrow> real \<Rightarrow> rng \<Rightarrow> real option list" where
  "RingAttractor_step_checked ra dt compass_input angular_velocity g =
     (let exc = excitation ra;
          mean_r = for_loop N (\<lambda>i m. m + m_r ra ! i) 0 / real N;
          inh = m_w_inh ra * mean_r;
          I_mag = magnetic_input ra compass_input;
          I_omega = omega_input ra angular_velocity
      in case neural_noise ra g of (noise, g') \<Rightarrow>
           for_loop N (rate_step_checked ra dt exc inh I_mag I_omega noise) (map Some (m_r ra)))"

section \<open>The navigating agent (bug.hpp)\<close>

record BugState =
  bs_x :: real
  bs_y :: real
  bs_heading :: real
  bs_estimated_heading :: real
  bs_bump_amplitude :: real

record BugParams =
  p_x0 :: real
  p_y0 :: real
  p_heading0 :: real
  p_goal_heading :: real
  p_speed :: real
  p_kappa :: real
  p_sigma_theta :: real
  p_sigma_xy :: real
  p_n_cry :: int
  p_contrast :: real
  p_mean_yield :: real
  p_sigma_sensor :: real
  p_ra_tau :: real
  p_ra_w_exc :: real
  p_ra_w_inh :: real
  p_ra_g_mag :: real
  p_ra_g_omega :: real
  p_ra_noise_sigma :: real
  p_cpu4_leak :: real
  p_cpu4_gain :: real
  p_seed :: "32 word"

text \<open>The default member initialisers of \<^verbatim>\<open>BugParams\<close>.\<close>

definition default_BugParams :: BugParams where
  "default_BugParams =
     \<lparr> p_x0 = 500, p_y0 = 100, p_heading0 = - 1, p_goal_heading = 3 * pi / 4,
       p_speed = 1, p_kappa = 2, p_sigma_theta = 0.1, p_sigma_xy = 0.05,
       p_n_cry = 1000, p_contrast = 0.15, p_mean_yield = 0.5, p_sigma_sensor = 0.02,
       p_ra_tau = 0.05, p_ra_w_exc = 1.5, p_ra_w_inh = 4.5, p_ra_g_mag = 2,
       p_ra_g_omega = 0.5, p_ra_noise_sigma = 0.01,
       p_cpu4_leak = 0, p_cpu4_gain = 1, p_seed = 0 \<rparr>"

text \<open>The agent owns the generator; the compass and the attractor borrow it, so every
  operation that draws takes \<open>m_rng\<close> and the agent stores the advanced generator.\<close>

record Bug =
  m_params :: BugParams
  m_rng :: rng
  m_x :: real
  m_y :: real
  m_heading :: real
  m_speed :: real
  m_goal_heading :: real
  m_kappa :: real
  m_sigma_theta :: real
  m_sigma_xy :: real
  m_compass :: CompassSensor
  m_attractor :: RingAttractor
  m_cpu4 :: CPU4
  m_history :: "BugState list"

text \<open>
  The constructor.  Its first two arguments stand for library code: \<open>mt19937\<close> maps a
  seed to the initial generator state, \<open>random_device\<close> is the value that
  \<^verbatim>\<open>std::random_device{}()\<close> returns.  A negative \<open>n_cry\<close> makes the compass
  constructor throw, and so the agent's.
\<close>

definition new_Bug :: "(32 word \<Rightarrow> rng) \<Rightarrow> 32 word \<Rightarrow> BugParams \<Rightarrow> error + Bug" where
  "new_Bug mt19937 random_device p =
     (let rng0 = (if p_seed p \<noteq> 0 then mt19937 (p_seed p) else mt19937 random_device);
          x = p_x0 p;
          y = p_y0 p
      in case (if p_heading0 p \<ge> 0 then (p_heading0 p, rng0)
               else uniform_real_distribution 0 (2 * pi) rng0) of
           (heading0, rng1) \<Rightarrow>
      (case new_CompassSensor (p_n_cry p) (p_contrast p) (p_mean_yield p) (p_sigma_sensor p) of
         Inl e \<Rightarrow> Inl e
       | Inr compass \<Rightarrow>
      (case new_RingAttractor (p_ra_tau p) (p_ra_w_exc p) (p_ra_w_inh p) (p_ra_g_mag p)
              (p_ra_g_omega p) 0 1 (p_ra_noise_sigma p) rng1 of
         (attractor0, rng2) \<Rightarrow>
      (let cpu4 = new_CPU4 (p_cpu4_leak p) (p_cpu4_gain p)
       in case RingAttractor_reset attractor0 heading0 rng2 of
            (attractor, rng3) \<Rightarrow>
              Inr \<lparr> m_params = p, m_rng = rng3, m_x = x, m_y = y, m_heading = heading0,
                    m_speed = p_speed p, m_goal_heading = p_goal_heading p,
                    m_kappa = p_kappa p, m_sigma_theta = p_sigma_theta p,
                    m_sigma_xy = p_sigma_xy p,
                    m_compass = compass, m_attractor = attractor, m_cpu4 = cpu4,
                    m_history = [\<lparr> bs_x = x, bs_y = y, bs_heading = heading0,
                                   bs_estimated_heading = RingAttractor_heading attractor,
                                   bs_bump_amplitude = bump_amplitude attractor \<rparr>] \<rparr>))))"

text \<open>\<^verbatim>\<open>step(dt, landscape)\<close>: the new state and whether the new position is in bounds.\<close>

definition Bug_step :: "real \<Rightarrow> Landscape \<Rightarrow> Bug \<Rightarrow> bool \<times> Bug" where
  "Bug_step dt landscape b =
     (let mag_dir = direction (magnetic_direction landscape (m_x b) (m_y b));
          relative_heading = m_heading b - mag_dir
      in case read (m_compass b) relative_heading (m_rng b) of
           (compass_signal, g1) \<Rightarrow>
      (let estimated_heading = RingAttractor_heading (m_attractor b) + mag_dir;
           heading_error = m_goal_heading b - estimated_heading;
           angular_command = m_kappa b * sin heading_error
       in case RingAttractor_step (m_attractor b) dt (Some compass_signal) angular_command g1 of
            (attractor, g2) \<Rightarrow>
      (let cpu4 = update (m_cpu4 b) (RingAttractor_heading attractor) (m_speed b) dt
       in case normal_distribution 0 1 g2 of
            (z_theta, g3) \<Rightarrow>
      (let noise_theta = m_sigma_theta b * sqrt dt * z_theta;
           heading1 = m_heading b + (angular_command * dt + noise_theta);
           heading2 = fmod heading1 (2 * pi);
           heading3 = (if heading2 < 0 then heading2 + 2 * pi else heading2)
       in case normal_distribution 0 1 g3 of
            (z_x, g4) \<Rightarrow>
      (let noise_x = m_sigma_xy b * sqrt dt * z_x
       in case normal_distribution 0 1 g4 of
            (z_y, g5) \<Rightarrow>
      (let noise_y = m_sigma_xy b * sqrt dt * z_y;
           x = m_x b + (m_speed b * cos heading3 * dt + noise_x);
           y = m_y b + (m_speed b * sin heading3 * dt + noise_y);
           est_h = RingAttractor_heading attractor + mag_dir;
           history = m_history b @
                       [\<lparr> bs_x = x, bs_y = y, bs_heading = heading3,
                          bs_estimated_heading = est_h,
                          bs_bump_amplitude = bump_amplitude attractor \<rparr>]
       in (in_bounds landscape x y,
           b\<lparr> m_rng := g5, m_x := x, m_y := y, m_heading := heading3,
              m_attractor := attractor, m_cpu4 := cpu4, m_history := history \<rparr>)))))))"

text \<open>\<^verbatim>\<open>static_cast<int>\<close> of a double is defined only when the truncated value is an
  \<^verbatim>\<open>int\<close> (32 bits); \<open>None\<close> is undefined behaviour.\<close>

definition static_cast_int :: "real \<Rightarrow> int option" where
  "static_cast_int v =
     (let t = trunc_real v
      in if - (2 ^ 31) \<le> t \<and> t \<le> 2 ^ 31 - 1 then Some t else None)"

text \<open>The loop of \<^verbatim>\<open>run\<close>, by the number of iterations that remain.\<close>

fun run_loop :: "Landscape \<Rightarrow> real \<Rightarrow> nat \<Rightarrow> Bug \<Rightarrow> bool \<times> Bug" where
  "run_loop landscape dt 0 b = (True, b)"
| "run_loop landscape dt (Suc k) b =
     (case Bug_step dt landscape b of
        (ok, b') \<Rightarrow> if \<not> ok then (False, b') else run_loop landscape dt k b')"

text \<open>\<^verbatim>\<open>run(landscape, duration, dt)\<close>.  The number of steps is the truncation of the
  double that the division \<^verbatim>\<open>duration / dt\<close> returns, that is of the rounded quotient: where
  the exact quotient is within rounding of an integer the two truncations differ.  The
  quotient is not a finite number when \<open>dt = 0\<close>; then, and when it is outside the range
  of \<^verbatim>\<open>int\<close>, the conversion is undefined.\<close>

definition Bug_run :: "Landscape \<Rightarrow> real \<Rightarrow> real \<Rightarrow> Bug \<Rightarrow> (bool \<times> Bug) option" where
  "Bug_run landscape duration dt b =
     do { q \<leftarrow> double_div duration dt;
          n_steps \<leftarrow> static_cast_int q;
          Some (run_loop landscape dt (nat n_steps) b) }"

definition distance_from_start :: "Bug \<Rightarrow> real" where
  "distance_from_start b =
     (let dx = m_x b - bs_x (m_history b ! 0);
          dy = m_y b - bs_y (m_history b ! 0)
      in sqrt (dx * dx + dy * dy))"

definition mean_heading_error :: "Bug \<Rightarrow> real" where
  "mean_heading_error b =
     fold (\<lambda>s acc. acc + \<bar>wrap_pi (bs_heading s - m_goal_heading b)\<bar>) (m_history b) 0
       / real (length (m_history b))"


section \<open>Call sequences\<close>

text \<open>The state after \<open>k\<close> consecutive calls of \<open>step\<close>.\<close>

definition Bug_steps :: "real \<Rightarrow> Landscape \<Rightarrow> nat \<Rightarrow> Bug \<Rightarrow> Bug" where
  "Bug_steps dt landscape k b = ((\<lambda>b. snd (Bug_step dt landscape b)) ^^ k) b"

text \<open>The number of calls of \<open>step\<close> that the loop of \<open>run\<close> makes.\<close>

fun run_loop_count :: "Landscape \<Rightarrow> real \<Rightarrow> nat \<Rightarrow> Bug \<Rightarrow> nat" where
  "run_loop_count landscape dt 0 b = 0"
| "run_loop_count landscape dt (Suc k) b =
     (case Bug_step dt landscape b of
        (ok, b') \<Rightarrow> if \<not> ok then 1 else 1 + run_loop_count landscape dt k b')"

text \<open>A caller's use of an agent: a sequence of \<open>step\<close> and \<open>run\<close> calls.\<close>

datatype call = Step real Landscape | Run Landscape real real

fun do_call :: "call \<Rightarrow> Bug \<Rightarrow> Bug option" where
  "do_call (Step dt landscape) b = Some (snd (Bug_step dt landscape b))"
| "do_call (Run landscape duration dt) b = map_option snd (Bug_run landscape duration dt b)"

fun steps_of_call :: "call \<Rightarrow> Bug \<Rightarrow> nat" where
  "steps_of_call (Step dt landscape) b = 1"
| "steps_of_call (Run landscape duration dt) b =
     (case double_div duration dt \<bind> static_cast_int of
        None \<Rightarrow> 0
      | Some n_steps \<Rightarrow> run_loop_count landscape dt (nat n_steps) b)"

text \<open>A call sequence yields the total number of steps taken and the final state.\<close>

fun do_calls :: "call list \<Rightarrow> Bug \<Rightarrow> (nat \<times> Bug) option" where
  "do_calls [] b = Some (0, b)"
| "do_calls (c # cs) b =
     do { b' \<leftarrow> do_call c b;
          (n, b'') \<leftarrow> do_calls cs b';
          Some (steps_of_call c b + n, b'') }"

text \<open>A seeding function for concrete evaluation: every seed gives \<open>const_rng z\<close>.\<close>

definition const_mt19937 :: "real \<Rightarrow> 32 word \<Rightarrow> rng" where
  "const_mt19937 z seed = const_rng z"


section \<open>The order of the random draws, as the specification states it\<close>

text \<open>The generator after \<open>k\<close> normal draws, and the \<open>k\<close>-th standard normal variate that
  a generator state will deliver (counting from 0).\<close>

definition advance :: "nat \<Rightarrow> rng \<Rightarrow> rng" where
  "advance k g = (normal_next ^^ k) g"

definition nth_normal :: "rng \<Rightarrow> nat \<Rightarrow> real" where
  "nth_normal g k = normal_out (advance k g)"

text \<open>The compass reading when molecule \<open>k\<close> is given the noise \<open>e k\<close>.\<close>

definition read_given_noise :: "CompassSensor \<Rightarrow> real \<Rightarrow> (nat \<Rightarrow> real) \<Rightarrow> real list" where
  "read_given_noise s heading e =
     (let chan_sums = for_loop (nat (m_n_cry s))
            (\<lambda>k acc. acc[m_assignments s ! k := acc ! (m_assignments s ! k)
                 + (singlet_yield (heading - m_phi s ! k) (m_contrast s) (m_mean_yield s) + e k)])
            (replicate N_CHANNELS 0)
      in for_loop N_CHANNELS (average_step s chan_sums) (replicate N_CHANNELS 0))"

text \<open>The estimator step when unit \<open>i\<close> is given the noise \<open>noise ! i\<close>.\<close>

definition RingAttractor_step_given_noise ::
  "RingAttractor \<Rightarrow> real \<Rightarrow> real list option \<Rightarrow> real \<Rightarrow> real list \<Rightarrow> RingAttractor" where
  "RingAttractor_step_given_noise ra dt compass_input angular_velocity noise =
     ra\<lparr>m_r := for_loop N
            (rate_step ra dt (excitation ra)
               (m_w_inh ra * (for_loop N (\<lambda>i m. m + m_r ra ! i) 0 / real N))
               (magnetic_input ra compass_input) (omega_input ra angular_velocity) noise)
            (m_r ra)\<rparr>"

text \<open>
  One step of the agent with the draws taken from the generator's stream of standard
  normal variates by position, in the order of the specification: first one variate per
  compass molecule (only if the sensor noise is positive), then one per estimator unit
  (only if the estimator noise is positive), then the heading noise, the noise of \<open>x\<close>
  and the noise of \<open>y\<close>.
\<close>

definition Bug_step_drawn :: "real \<Rightarrow> Landscape \<Rightarrow> Bug \<Rightarrow> bool \<times> Bug" where
  "Bug_step_drawn dt landscape b =
     (let g = m_rng b;
          sigma_s = m_sigma_sensor (m_compass b);
          sigma_e = m_noise_sigma (m_attractor b);
          n_compass = (if sigma_s > 0 then nat (m_n_cry (m_compass b)) else 0);
          n_estimator = (if sigma_e > 0 then N else 0);
          compass_noise = (\<lambda>k. if sigma_s > 0 then nth_normal g k * sigma_s else 0);
          estimator_noise =
            map (\<lambda>i. if sigma_e > 0 then nth_normal g (n_compass + i) * sigma_e else 0) [0..<N];
          z_theta = nth_normal g (n_compass + n_estimator);
          z_x = nth_normal g (n_compass + n_estimator + 1);
          z_y = nth_normal g (n_compass + n_estimator + 2);
          mag_dir = direction (magnetic_direction landscape (m_x b) (m_y b));
          compass_signal = read_given_noise (m_compass b) (m_heading b - mag_dir) compass_noise;
          estimated_heading = RingAttractor_heading (m_attractor b) + mag_dir;
          angular_command = m_kappa b * sin (m_goal_heading b - estimated_heading);
          attractor = RingAttractor_step_given_noise (m_attractor b) dt (Some compass_signal)
                        angular_command estimator_noise;
          cpu4 = update (m_cpu4 b) (RingAttractor_heading attractor) (m_speed b) dt;
          heading1 = fmod (m_heading b + (angular_command * dt + m_sigma_theta b * sqrt dt * z_theta))
                       (2 * pi);
          heading2 = (if heading1 < 0 then heading1 + 2 * pi else heading1);
          x = m_x b + (m_speed b * cos heading2 * dt + m_sigma_xy b * sqrt dt * z_x);
          y = m_y b + (m_speed b * sin heading2 * dt + m_sigma_xy b * sqrt dt * z_y)
      in (in_bounds landscape x y,
          b\<lparr> m_rng := advance (n_compass + n_estimator + 3) g,
             m_x := x, m_y := y, m_heading := heading2,
             m_attractor := attractor, m_cpu4 := cpu4,
             m_history := m_history b @
               [\<lparr> bs_x = x, bs_y = y, bs_heading = heading2,
                  bs_estimated_heading = RingAttractor_heading attractor + mag_dir,
                  bs_bump_amplitude = bump_amplitude attractor \<rparr>] \<rparr>))"

text \<open>A generator for concrete evaluation whose variates depend on the seed: the
  \<open>k\<close>-th normal variate after seeding with \<open>s\<close> is \<open>s + k\<close>.\<close>

primcorec ramp_rng :: "real \<Rightarrow> rng" where
  "ramp_rng z = Rng z (ramp_rng (z + 1)) (\<lambda>a b. a) (\<lambda>a b. ramp_rng (z + 1))
                  (\<lambda>a b. a) (\<lambda>a b. ramp_rng (z + 1))"

definition ramp_mt19937 :: "32 word \<Rightarrow> rng" where
  "ramp_mt19937 seed = ramp_rng (real (unat seed))"


section \<open>Ring attractor: the bump without input\<close>

text \<open>\<open>n\<close> calls of \<^verbatim>\<open>step(dt)\<close> with a null compass input and zero angular velocity,
  the generator threaded through them.\<close>

definition quiet_steps :: "nat \<Rightarrow> real \<Rightarrow> RingAttractor \<Rightarrow> rng \<Rightarrow> RingAttractor \<times> rng" where
  "quiet_steps n dt ra g = ((\<lambda>(ra, g). RingAttractor_step ra dt None 0 g) ^^ n) (ra, g)"

text \<open>The scenario of the test "bump stability without input"
  (\<^verbatim>\<open>tests/test_ring_attractor.cpp\<close>): an attractor built with the default weights and
  zero noise sigma, \<^verbatim>\<open>reset(h)\<close>, \<open>n\<close> quiet steps, then \<^verbatim>\<open>heading()\<close>.\<close>

definition bump_scenario :: "real \<Rightarrow> real \<Rightarrow> real \<Rightarrow> nat \<Rightarrow> rng \<Rightarrow> real" where
  "bump_scenario tau h dt n g =
     (case new_RingAttractor tau 1.5 4.5 2.0 0.5 0.0 1.0 0.0 g of (ra, g1) \<Rightarrow>
      case RingAttractor_reset ra h g1 of (ra1, g2) \<Rightarrow>
        RingAttractor_heading (fst (quiet_steps n dt ra1 g2)))"

subsection \<open>Closed forms of the loops on the eight-unit ring\<close>

text \<open>
  The definitions of this subsection translate no function of the source.  They are
  the closed forms that the loops of \<^verbatim>\<open>init_connectivity\<close>, \<^verbatim>\<open>reset\<close>, \<^verbatim>\<open>step\<close> and
  \<^verbatim>\<open>heading\<close> take for \<open>N = 8\<close> and the default weights \<open>w_exc = 1.5\<close>, \<open>w_inh = 4.5\<close>,
  \<open>threshold = 0\<close>, \<open>r_max = 1\<close>, \<open>noise_sigma = 0\<close>; each is proved equal to the
  embedded function before it is used (lemmas \<open>init_connectivity_default\<close>,
  \<open>reset_as_list\<close>, \<open>step_as_list\<close>, \<open>heading_as_list\<close>).
\<close>

text \<open>The preferred directions and the excitatory weights
  \<open>w_exc * max 0 (cos (\<theta>\<^sub>i - \<theta>\<^sub>j))\<close>: only a unit and its two neighbours excite it.\<close>

definition ring_theta :: "real list" where
  "ring_theta = [0, pi / 4, pi / 2, pi * 3 / 4, pi, pi * 5 / 4, 3 * pi / 2, pi * 7 / 4]"

definition ring_W :: "real list list" where
  "ring_W = (let a = 3 / 2; b = 3 * sqrt 2 / 4 in
     [[a, b, 0, 0, 0, 0, 0, b],
      [b, a, b, 0, 0, 0, 0, 0],
      [0, b, a, b, 0, 0, 0, 0],
      [0, 0, b, a, b, 0, 0, 0],
      [0, 0, 0, b, a, b, 0, 0],
      [0, 0, 0, 0, b, a, b, 0],
      [0, 0, 0, 0, 0, b, a, b],
      [b, 0, 0, 0, 0, 0, b, a]])"

definition default_weights :: "RingAttractor \<Rightarrow> bool" where
  "default_weights ra \<longleftrightarrow>
     m_theta ra = ring_theta \<and> m_W_exc ra = ring_W \<and> m_w_inh ra = 9 / 2
     \<and> m_threshold ra = 0 \<and> m_r_max ra = 1 \<and> m_noise_sigma ra = 0"

text \<open>One Euler update of a rate \<open>r\<close> under the drive \<open>drive\<close> (the body of the last loop of
  \<^verbatim>\<open>step\<close>), the global inhibition, and the whole step on the list of rates.\<close>

definition relax :: "real \<Rightarrow> real \<Rightarrow> real \<Rightarrow> real \<Rightarrow> real" where
  "relax tau dt r drive = clamp (r + (- r + clamp drive 0 1) / tau * dt) 0 1"

definition inh_list :: "real list \<Rightarrow> real" where
  "inh_list r = 9 / 2 * ((r ! 0 + r ! 1 + r ! 2 + r ! 3 + r ! 4 + r ! 5 + r ! 6 + r ! 7) / 8)"

definition step_list :: "real \<Rightarrow> real \<Rightarrow> real list \<Rightarrow> real list" where
  "step_list tau dt r =
     [relax tau dt (r ! 0) (3 / 2 * r ! 0 + 3 * sqrt 2 / 4 * (r ! 7 + r ! 1) - inh_list r),
      relax tau dt (r ! 1) (3 / 2 * r ! 1 + 3 * sqrt 2 / 4 * (r ! 0 + r ! 2) - inh_list r),
      relax tau dt (r ! 2) (3 / 2 * r ! 2 + 3 * sqrt 2 / 4 * (r ! 1 + r ! 3) - inh_list r),
      relax tau dt (r ! 3) (3 / 2 * r ! 3 + 3 * sqrt 2 / 4 * (r ! 2 + r ! 4) - inh_list r),
      relax tau dt (r ! 4) (3 / 2 * r ! 4 + 3 * sqrt 2 / 4 * (r ! 3 + r ! 5) - inh_list r),
      relax tau dt (r ! 5) (3 / 2 * r ! 5 + 3 * sqrt 2 / 4 * (r ! 4 + r ! 6) - inh_list r),
      relax tau dt (r ! 6) (3 / 2 * r ! 6 + 3 * sqrt 2 / 4 * (r ! 5 + r ! 7) - inh_list r),
      relax tau dt (r ! 7) (3 / 2 * r ! 7 + 3 * sqrt 2 / 4 * (r ! 6 + r ! 0) - inh_list r)]"

text \<open>The rates after \<^verbatim>\<open>reset(h)\<close>, the real and imaginary part of the population vector,
  and the decode of \<^verbatim>\<open>heading\<close> from them.\<close>

definition reset_list :: "real \<Rightarrow> real list" where
  "reset_list h =
     [max 0 (cos h / 2),
      max 0 ((sqrt 2 / 2 * cos h + sqrt 2 / 2 * sin h) / 2),
      max 0 (sin h / 2),
      max 0 ((sqrt 2 / 2 * sin h - sqrt 2 / 2 * cos h) / 2),
      max 0 (- cos h / 2),
      max 0 ((- (sqrt 2 / 2 * cos h) - sqrt 2 / 2 * sin h) / 2),
      max 0 (- sin h / 2),
      max 0 ((sqrt 2 / 2 * cos h - sqrt 2 / 2 * sin h) / 2)]"

definition pv_re :: "real list \<Rightarrow> real" where
  "pv_re r = r ! 0 - r ! 4 + sqrt 2 / 2 * (r ! 1 + r ! 7 - r ! 3 - r ! 5)"

definition pv_im :: "real list \<Rightarrow> real" where
  "pv_im r = r ! 2 - r ! 6 + sqrt 2 / 2 * (r ! 1 + r ! 3 - r ! 5 - r ! 7)"

definition decode :: "real \<Rightarrow> real \<Rightarrow> real" where
  "decode x y =
     (if sqrt (x\<^sup>2 + y\<^sup>2) < 1 / 10 ^ 10 then 0
      else (let h = atan2 y x in if h < 0 then h + 2 * pi else h))"

text \<open>The ring shifted by one unit, and a bump carried by two adjacent units (rate \<open>a\<close>)
  and their outer neighbours (rate \<open>b\<close>).\<close>

definition rot8 :: "real list \<Rightarrow> real list" where
  "rot8 r = last r # butlast r"

definition pair_bump :: "real \<Rightarrow> real \<Rightarrow> real list" where
  "pair_bump a b = [a, a, b, 0, 0, 0, 0, b]"

subsection \<open>Exact evaluation in \<open>\<rat>(\<surd>2)\<close>\<close>

text \<open>
  With the default weights every drive is a combination of the rates with coefficients
  in \<open>\<rat>(\<surd>2)\<close>.  A number \<open>a + b * sqrt 2\<close> is kept as the pair \<open>(a, b)\<close> of rationals;
  \<open>q_clamp\<close> decides the two comparisons of \<^verbatim>\<open>std::clamp\<close> from the enclosure
  \<open>1.41421 < sqrt 2 < 1.41422\<close> and answers \<open>None\<close> when the enclosure does not decide
  them.  \<open>q_step\<close> is one step with \<open>dt = tau\<close>, where the Euler update of a rate is the
  clamped drive itself.
\<close>

definition val :: "rat \<times> rat \<Rightarrow> real" where
  "val x = of_rat (fst x) + of_rat (snd x) * sqrt 2"

definition q_lo :: "rat \<times> rat \<Rightarrow> rat" where
  "q_lo x = fst x + (if 0 \<le> snd x then snd x * (141421 / 100000) else snd x * (141422 / 100000))"

definition q_hi :: "rat \<times> rat \<Rightarrow> rat" where
  "q_hi x = fst x + (if 0 \<le> snd x then snd x * (141422 / 100000) else snd x * (141421 / 100000))"

definition q_clamp :: "rat \<times> rat \<Rightarrow> (rat \<times> rat) option" where
  "q_clamp x =
     (if q_hi x \<le> 0 then Some (0, 0)
      else if 1 \<le> q_lo x then Some (1, 0)
      else if 0 \<le> q_lo x \<and> q_hi x \<le> 1 then Some x
      else None)"

definition q_drive :: "(rat \<times> rat) list \<Rightarrow> nat \<Rightarrow> nat \<Rightarrow> nat \<Rightarrow> rat \<times> rat" where
  "q_drive xs jm j jp =
     (3 / 2 * fst (xs ! j) + 3 / 2 * (snd (xs ! jm) + snd (xs ! jp))
        - 9 / 16 * (fst (xs ! 0) + fst (xs ! 1) + fst (xs ! 2) + fst (xs ! 3)
                    + fst (xs ! 4) + fst (xs ! 5) + fst (xs ! 6) + fst (xs ! 7)),
      3 / 2 * snd (xs ! j) + 3 / 4 * (fst (xs ! jm) + fst (xs ! jp))
        - 9 / 16 * (snd (xs ! 0) + snd (xs ! 1) + snd (xs ! 2) + snd (xs ! 3)
                    + snd (xs ! 4) + snd (xs ! 5) + snd (xs ! 6) + snd (xs ! 7)))"

definition q_step :: "(rat \<times> rat) list \<Rightarrow> (rat \<times> rat) list option" where
  "q_step xs =
     do {
       y0 \<leftarrow> q_clamp (q_drive xs 7 0 1);
       y1 \<leftarrow> q_clamp (q_drive xs 0 1 2);
       y2 \<leftarrow> q_clamp (q_drive xs 1 2 3);
       y3 \<leftarrow> q_clamp (q_drive xs 2 3 4);
       y4 \<leftarrow> q_clamp (q_drive xs 3 4 5);
       y5 \<leftarrow> q_clamp (q_drive xs 4 5 6);
       y6 \<leftarrow> q_clamp (q_drive xs 5 6 7);
       y7 \<leftarrow> q_clamp (q_drive xs 6 7 0);
       Some [y0, y1, y2, y3, y4, y5, y6, y7]
     }"

fun q_steps :: "nat \<Rightarrow> (rat \<times> rat) list \<Rightarrow> (rat \<times> rat) list option" where
  "q_steps 0 xs = Some xs"
| "q_steps (Suc n) xs = (case q_step xs of None \<Rightarrow> None | Some ys \<Rightarrow> q_steps n ys)"

text \<open>The rates after \<^verbatim>\<open>reset(arctan (25 / 312))\<close> (cosine \<open>312/313\<close>, sine \<open>25/313\<close>), and
  the saturated pair of units 0 and 1.\<close>

definition drift_start :: "(rat \<times> rat) list" where
  "drift_start = [(156 / 313, 0), (0, 337 / 1252), (25 / 626, 0), (0, 0), (0, 0), (0, 0), (0, 0),
                  (0, 287 / 1252)]"

definition drift_end :: "(rat \<times> rat) list" where
  "drift_end = [(1, 0), (1, 0), (0, 0), (0, 0), (0, 0), (0, 0), (0, 0), (0, 0)]"

section \<open>Landscape: properties\<close>

lemma fold_add_perturbation_snoc:
  "fold (add_perturbation x y) (as @ [a]) B =
     add_perturbation x y a (fold (add_perturbation x y) as B)"
  by simp

lemma perturbation_Gaussian_outside:
  assumes "3 * g_radius a \<le> sqrt ((x - g_px a) * (x - g_px a) + (y - g_py a) * (y - g_py a))"
  shows "perturbation_Gaussian x y a = (0, 0, 0)"
  using assms by (simp add: perturbation_Gaussian_def Let_def)

lemma add_perturbation_zero:
  "anomaly_perturbation x y a = (0, 0, 0) \<Longrightarrow> add_perturbation x y a B = B"
  by (cases B) (simp add: add_perturbation_def)

lemma powr_five_halves_ge_square:
  assumes "1 \<le> (t::real)"
  shows "t * t \<le> t powr 2.5"
proof -
  have t0: "0 < t" using assms by simp
  have "t powr 2.5 = t powr 2 * t powr 0.5"
    by (simp add: powr_add [symmetric])
  moreover have "t powr 2 = t * t"
    using t0 by (simp add: powr_numeral power2_eq_square)
  moreover have "1 \<le> t powr 0.5"
    using assms by (simp add: ge_one_powr_ge_zero)
  moreover have "0 \<le> t * t" by simp
  ultimately show ?thesis
    by (metis mult.right_neutral mult_left_mono)
qed

lemma dipole_far_bound:
  fixes x y :: real and a :: DipoleAnomaly
  assumes rho: "1 \<le> sqrt ((x - d_px a) * (x - d_px a) + (y - d_py a) * (y - d_py a))"
  shows "\<bar>fst (perturbation_Dipole x y a)\<bar>
           \<le> 3 * \<bar>d_strength a * (5 powr 2.5) * (d_depth a) ^ 3 / 48\<bar> * \<bar>d_depth a\<bar>
              / sqrt ((x - d_px a) * (x - d_px a) + (y - d_py a) * (y - d_py a))"
    and "\<bar>fst (snd (perturbation_Dipole x y a))\<bar>
           \<le> 3 * \<bar>d_strength a * (5 powr 2.5) * (d_depth a) ^ 3 / 48\<bar> * \<bar>d_depth a\<bar>
              / sqrt ((x - d_px a) * (x - d_px a) + (y - d_py a) * (y - d_py a))"
    and "\<bar>snd (snd (perturbation_Dipole x y a))\<bar>
           \<le> 2 * \<bar>d_strength a * (5 powr 2.5) * (d_depth a) ^ 3 / 48\<bar>
              / sqrt ((x - d_px a) * (x - d_px a) + (y - d_py a) * (y - d_py a))"
proof -
  define dx where "dx = x - d_px a"
  define dy where "dy = y - d_py a"
  define d where "d = d_depth a"
  define rho where "rho = sqrt (dx * dx + dy * dy)"
  define al where "al = d_strength a * (5 powr 2.5) * d ^ 3 / 48"
  define R2 where "R2 = dx * dx + dy * dy + d * d"
  define R5 where "R5 = R2 powr 2.5"
  have rho1: "1 \<le> rho" using rho by (simp add: rho_def dx_def dy_def)
  have rho2: "rho * rho = dx * dx + dy * dy"
    by (simp add: rho_def)
  have rho_pos: "0 < rho" using rho1 by simp
  have r1: "1 \<le> rho * rho" using rho1 by (simp add: mult_ge1_I)
  have R2_ge: "rho * rho \<le> R2" by (simp add: R2_def rho2)
  have R2_1: "1 \<le> R2" using r1 R2_ge by linarith
  have R5_ge: "R2 * R2 \<le> R5" unfolding R5_def by (rule powr_five_halves_ge_square [OF R2_1])
  have R5_pos: "0 < R5" using R5_ge R2_1 by (smt (verit) mult_pos_pos)
  have absx: "\<bar>dx\<bar> \<le> rho" "\<bar>dy\<bar> \<le> rho"
  proof -
    show "\<bar>dx\<bar> \<le> rho"
      by (metis le_add_same_cancel1 real_sqrt_abs2 real_sqrt_le_iff rho_def zero_le_square)
    show "\<bar>dy\<bar> \<le> rho"
      by (metis le_add_same_cancel2 real_sqrt_abs2 real_sqrt_le_iff rho_def zero_le_square)
  qed
  have R2_sq: "R2 \<le> R2 * R2" using R2_1 by (simp add: mult_ge1_I)
  have rr_R5: "rho * rho \<le> R5" using R2_ge R2_sq R5_ge by linarith
  have rho_R5: "R2 * rho \<le> R5"
  proof -
    have "rho \<le> rho * rho" using rho1 by (simp add: mult_ge1_I)
    then have "rho \<le> R2" using R2_ge by linarith
    then have "R2 * rho \<le> R2 * R2" using R2_1 by (simp add: mult_left_mono)
    then show ?thesis using R5_ge by linarith
  qed
  have key: "\<bar>al * 3 * d * u / R5\<bar> \<le> 3 * \<bar>al\<bar> * \<bar>d\<bar> / rho" if u: "\<bar>u\<bar> \<le> rho" for u
  proof -
    have "\<bar>u\<bar> * rho \<le> rho * rho" using u rho_pos by (simp add: mult_right_mono)
    then have "\<bar>u\<bar> * rho \<le> R5" using rr_R5 by linarith
    then have q: "\<bar>u\<bar> / R5 \<le> 1 / rho"
      using R5_pos rho_pos by (simp add: field_simps)
    have "\<bar>al * 3 * d * u / R5\<bar> = (3 * \<bar>al\<bar> * \<bar>d\<bar>) * (\<bar>u\<bar> / R5)"
      using R5_pos by (simp add: abs_mult)
    also have "\<dots> \<le> (3 * \<bar>al\<bar> * \<bar>d\<bar>) * (1 / rho)"
      using q by (intro mult_left_mono) simp_all
    finally show ?thesis by simp
  qed
  have keyz: "\<bar>al * (2 * d * d - (dx * dx + dy * dy)) / R5\<bar> \<le> 2 * \<bar>al\<bar> / rho"
  proof -
    have sq: "0 \<le> d * d" "0 \<le> dx * dx" "0 \<le> dy * dy" by simp_all
    have n: "\<bar>2 * d * d - (dx * dx + dy * dy)\<bar> \<le> 2 * R2"
      unfolding R2_def using sq by (simp add: abs_le_iff)
    have "R2 / R5 \<le> 1 / rho"
      using rho_R5 R5_pos rho_pos by (simp add: field_simps)
    then have q: "(2 * R2) / R5 \<le> 2 / rho" by simp
    have "\<bar>al * (2 * d * d - (dx * dx + dy * dy)) / R5\<bar>
            = \<bar>al\<bar> * (\<bar>2 * d * d - (dx * dx + dy * dy)\<bar> / R5)"
      using R5_pos by (simp add: abs_mult)
    also have "\<dots> \<le> \<bar>al\<bar> * ((2 * R2) / R5)"
      using n R5_pos by (intro mult_left_mono divide_right_mono) simp_all
    also have "\<dots> \<le> \<bar>al\<bar> * (2 / rho)"
      using q by (intro mult_left_mono) simp_all
    finally show ?thesis by (simp add: mult.commute)
  qed
  have p: "perturbation_Dipole x y a
      = (al * 3 * d * dx / R5, al * 3 * d * dy / R5, al * (2 * d * d - (dx * dx + dy * dy)) / R5)"
    by (simp add: perturbation_Dipole_def Let_def dx_def dy_def d_def al_def R5_def R2_def)
  show "\<bar>fst (perturbation_Dipole x y a)\<bar>
           \<le> 3 * \<bar>d_strength a * (5 powr 2.5) * (d_depth a) ^ 3 / 48\<bar> * \<bar>d_depth a\<bar>
              / sqrt ((x - d_px a) * (x - d_px a) + (y - d_py a) * (y - d_py a))"
    using key [OF absx(1)] unfolding p by (simp add: al_def d_def rho_def dx_def dy_def)
  show "\<bar>fst (snd (perturbation_Dipole x y a))\<bar>
           \<le> 3 * \<bar>d_strength a * (5 powr 2.5) * (d_depth a) ^ 3 / 48\<bar> * \<bar>d_depth a\<bar>
              / sqrt ((x - d_px a) * (x - d_px a) + (y - d_py a) * (y - d_py a))"
    using key [OF absx(2)] unfolding p by (simp add: al_def d_def rho_def dx_def dy_def)
  show "\<bar>snd (snd (perturbation_Dipole x y a))\<bar>
           \<le> 2 * \<bar>d_strength a * (5 powr 2.5) * (d_depth a) ^ 3 / 48\<bar>
              / sqrt ((x - d_px a) * (x - d_px a) + (y - d_py a) * (y - d_py a))"
    using keyz unfolding p by (simp add: al_def d_def rho_def dx_def dy_def)
qed


lemma dipole_perturbation_vanishes:
  fixes a :: DipoleAnomaly and eps :: real
  assumes eps: "0 < eps"
  shows "\<exists>D. \<forall>x y. D \<le> sqrt ((x - d_px a) * (x - d_px a) + (y - d_py a) * (y - d_py a)) \<longrightarrow>
           \<bar>fst (perturbation_Dipole x y a)\<bar> < eps
         \<and> \<bar>fst (snd (perturbation_Dipole x y a))\<bar> < eps
         \<and> \<bar>snd (snd (perturbation_Dipole x y a))\<bar> < eps"
proof -
  define A where "A = \<bar>d_strength a * (5 powr 2.5) * (d_depth a) ^ 3 / 48\<bar>"
  define C where "C = 3 * A * \<bar>d_depth a\<bar> + 2 * A"
  have A0: "0 \<le> A" by (simp add: A_def)
  have C1: "3 * A * \<bar>d_depth a\<bar> \<le> C" and C2: "2 * A \<le> C"
    using A0 by (simp_all add: C_def)
  define D where "D = max 1 (C / eps + 1)"
  have "\<bar>fst (perturbation_Dipole x y a)\<bar> < eps
         \<and> \<bar>fst (snd (perturbation_Dipole x y a))\<bar> < eps
         \<and> \<bar>snd (snd (perturbation_Dipole x y a))\<bar> < eps"
    if far: "D \<le> sqrt ((x - d_px a) * (x - d_px a) + (y - d_py a) * (y - d_py a))" for x y
  proof -
    define rho where "rho = sqrt ((x - d_px a) * (x - d_px a) + (y - d_py a) * (y - d_py a))"
    have rho1: "1 \<le> rho" and rho2: "C / eps + 1 \<le> rho"
      using far by (simp_all add: D_def rho_def)
    have rho_pos: "0 < rho" using rho1 by simp
    have "C / eps < rho" using rho2 by simp
    then have small: "C / rho < eps"
      using eps rho_pos by (simp add: field_simps)
    note b = dipole_far_bound [of x a y, folded rho_def A_def, OF rho1]
    have "3 * A * \<bar>d_depth a\<bar> / rho \<le> C / rho" "2 * A / rho \<le> C / rho"
      using C1 C2 rho_pos by (simp_all add: divide_right_mono)
    with b small show ?thesis by linarith
  qed
  then show ?thesis by blast
qed

lemma gaussian_outside_support:
  assumes "3 * g_radius a \<le> sqrt ((x - g_px a) * (x - g_px a) + (y - g_py a) * (y - g_py a))"
  shows "magnetic_direction (add_anomaly land (Gaussian a)) x y = magnetic_direction land x y"
proof -
  have "anomaly_perturbation x y (Gaussian a) = (0, 0, 0)"
    using assms by (simp add: perturbation_Gaussian_outside)
  then have "fold (add_perturbation x y) (m_anomalies land @ [Gaussian a]) B =
             fold (add_perturbation x y) (m_anomalies land) B" for B
    by (simp add: add_perturbation_zero)
  then show ?thesis
    by (simp add: magnetic_direction_def add_anomaly_def)
qed

text \<open>
  Claim C1, as amended.  A Gaussian anomaly has bounded support: at every point whose
  distance from its centre is at least three radii, the field sample of the landscape
  with the anomaly added is the field sample of the landscape without it.  A Dipole
  anomaly has no bounded support, but its perturbation vector vanishes with the
  distance: each component is below any \<open>eps > 0\<close> at all points farther than some \<open>D\<close>
  from its centre.  (Nothing is stated for Fault and Gradient anomalies; the
  counterexample gives one of each whose far field is not the background.)
\<close>

theorem far_field_recovers_background:
  "(3 * g_radius a \<le> sqrt ((x - g_px a) * (x - g_px a) + (y - g_py a) * (y - g_py a))
      \<longrightarrow> magnetic_direction (add_anomaly land (Gaussian a)) x y = magnetic_direction land x y)
   \<and> (0 < eps \<longrightarrow>
        (\<exists>D. \<forall>u v. D \<le> sqrt ((u - d_px d) * (u - d_px d) + (v - d_py d) * (v - d_py d)) \<longrightarrow>
           \<bar>fst (perturbation_Dipole u v d)\<bar> < eps
         \<and> \<bar>fst (snd (perturbation_Dipole u v d))\<bar> < eps
         \<and> \<bar>snd (snd (perturbation_Dipole u v d))\<bar> < eps))"
  using gaussian_outside_support [of a x y land] dipole_perturbation_vanishes [of eps d]
  by blast

theorem far_field_recovers_background_witness:
  "3 * g_radius (GaussianAnomaly 500 500 5 50)
     \<le> sqrt ((500 - g_px (GaussianAnomaly 500 500 5 50)) * (500 - g_px (GaussianAnomaly 500 500 5 50))
            + (1000 - g_py (GaussianAnomaly 500 500 5 50)) * (1000 - g_py (GaussianAnomaly 500 500 5 50)))
   \<and> magnetic_direction
       (add_anomaly (new_Landscape 1000 1000 50 0 (pi / 3)) (Gaussian (GaussianAnomaly 500 500 5 50)))
       500 1000
     = magnetic_direction (new_Landscape 1000 1000 50 0 (pi / 3)) 500 1000
   \<and> (0::real) < 1 / 1000
   \<and> (\<exists>D. \<forall>u v. D \<le> sqrt ((u - d_px (DipoleAnomaly 500 500 5 50)) * (u - d_px (DipoleAnomaly 500 500 5 50))
                           + (v - d_py (DipoleAnomaly 500 500 5 50)) * (v - d_py (DipoleAnomaly 500 500 5 50))) \<longrightarrow>
           \<bar>fst (perturbation_Dipole u v (DipoleAnomaly 500 500 5 50))\<bar> < 1 / 1000
         \<and> \<bar>fst (snd (perturbation_Dipole u v (DipoleAnomaly 500 500 5 50)))\<bar> < 1 / 1000
         \<and> \<bar>snd (snd (perturbation_Dipole u v (DipoleAnomaly 500 500 5 50)))\<bar> < 1 / 1000)"
proof -
  have far: "3 * g_radius (GaussianAnomaly 500 500 5 50)
     \<le> sqrt ((500 - g_px (GaussianAnomaly 500 500 5 50)) * (500 - g_px (GaussianAnomaly 500 500 5 50))
            + (1000 - g_py (GaussianAnomaly 500 500 5 50)) * (1000 - g_py (GaussianAnomaly 500 500 5 50)))"
    by simp
  have eps: "(0::real) < 1 / 1000" by simp
  from far eps
    far_field_recovers_background [of "GaussianAnomaly 500 500 5 50" 500 1000
      "new_Landscape 1000 1000 50 0 (pi / 3)" "1 / 1000" "DipoleAnomaly 500 500 5 50"]
  show ?thesis by blast
qed

text \<open>
  Claim C1 as stated fails for a Fault and for a Gradient anomaly.  At \<open>(500, 100500)\<close>,
  two thousand widths away from the fault line through \<open>(500, 500)\<close>, the intensity with
  the fault is not the background's; at \<open>(100500, 500)\<close>, a hundred thousand length units
  from the reference point \<open>(500, 500)\<close> of the gradient along its direction, the
  intensity with the gradient is not the background's.
\<close>

theorem fault_gradient_far_field_counterexample:
  "intensity (magnetic_direction
      (add_anomaly (new_Landscape 1000 1000 50 0 (pi / 3)) (Fault (FaultAnomaly 500 500 0 3 50)))
      500 100500)
     \<noteq> intensity (magnetic_direction (new_Landscape 1000 1000 50 0 (pi / 3)) 500 100500)
   \<and> intensity (magnetic_direction
      (add_anomaly (new_Landscape 1000 1000 50 0 (pi / 3)) (Gradient (GradientAnomaly 0.01 0 500 500)))
      100500 500)
     \<noteq> intensity (magnetic_direction (new_Landscape 1000 1000 50 0 (pi / 3)) 100500 500)"
proof -
  have nz: "tanh (- 2000 :: real) \<noteq> 0"
    by (simp add: tanh_real_zero_iff)
  have bg: "intensity (magnetic_direction (new_Landscape 1000 1000 50 0 (pi / 3)) u v) = 25" for u v
    by (simp add: magnetic_direction_def new_Landscape_def cos_60)
  have fault: "intensity (magnetic_direction
      (add_anomaly (new_Landscape 1000 1000 50 0 (pi / 3)) (Fault (FaultAnomaly 500 500 0 3 50)))
      500 100500) = sqrt (25 * 25 + (3 / 2 * tanh (- 2000)) * (3 / 2 * tanh (- 2000)))"
    by (simp add: magnetic_direction_def new_Landscape_def add_anomaly_def add_perturbation_def
        perturbation_Fault_def cos_60 Let_def)
  have grad: "intensity (magnetic_direction
      (add_anomaly (new_Landscape 1000 1000 50 0 (pi / 3)) (Gradient (GradientAnomaly 0.01 0 500 500)))
      100500 500) = 1025"
    by (simp add: magnetic_direction_def new_Landscape_def add_anomaly_def add_perturbation_def
        perturbation_Gradient_def cos_60 Let_def)
  have "sqrt (25 * 25 + (3 / 2 * tanh (- 2000)) * (3 / 2 * tanh (- 2000))) \<noteq> (25::real)"
  proof
    assume "sqrt (25 * 25 + (3 / 2 * tanh (- 2000)) * (3 / 2 * tanh (- 2000))) = (25::real)"
    then have "25 * 25 + (3 / 2 * tanh (- 2000)) * (3 / 2 * tanh (- 2000)) = (25::real)\<^sup>2"
      by (metis real_sqrt_eq_iff real_sqrt_abs abs_numeral)
    then have "(3 / 2 * tanh (- 2000 :: real)) * (3 / 2 * tanh (- 2000)) = 0"
      by (simp add: power2_eq_square)
    with nz show False by simp
  qed
  with bg fault grad show ?thesis by simp
qed


section \<open>Loops: basic facts\<close>

lemma for_loop_0: "for_loop 0 body s = s"
  by (simp add: for_loop_def)

lemma for_loop_Suc: "for_loop (Suc n) body s = body n (for_loop n body s)"
  by (simp add: for_loop_def)

lemma sum_filter_Suc:
  fixes f :: "nat \<Rightarrow> 'a::comm_monoid_add"
  shows "(\<Sum>j | j < Suc k \<and> P j. f j) = (\<Sum>j | j < k \<and> P j. f j) + (if P k then f k else 0)"
proof -
  have fin: "finite {j. j < k \<and> P j}" by simp
  have notin: "k \<notin> {j. j < k \<and> P j}" by simp
  show ?thesis
  proof (cases "P k")
    case True
    then have "{j. j < Suc k \<and> P j} = insert k {j. j < k \<and> P j}"
      by (auto simp: less_Suc_eq)
    then show ?thesis using True fin notin by (simp add: add.commute)
  next
    case False
    then have "{j. j < Suc k \<and> P j} = {j. j < k \<and> P j}"
      by (auto simp: less_Suc_eq)
    then show ?thesis using False by simp
  qed
qed

lemma card_filter_Suc:
  "card {j. j < Suc k \<and> P j} = card {j. j < k \<and> P j} + (if P k then 1 else 0)"
proof -
  have "card {j. j < Suc k \<and> P j} = (\<Sum>j | j < Suc k \<and> P j. 1)" by simp
  also have "\<dots> = (\<Sum>j | j < k \<and> P j. 1) + (if P k then 1 else 0)"
    by (rule sum_filter_Suc)
  finally show ?thesis by simp
qed


section \<open>Compass sensor: the partition into channels\<close>

lemma nearest_loop_range:
  "snd (for_loop k (nearest_step centres p) (d, 0)) = 0
   \<or> snd (for_loop k (nearest_step centres p) (d, 0)) < k"
proof (induction k)
  case 0
  then show ?case by (simp add: for_loop_0)
next
  case (Suc k)
  obtain bd bc where st: "for_loop k (nearest_step centres p) (d, 0) = (bd, bc)"
    by (cases "for_loop k (nearest_step centres p) (d, 0)")
  from Suc have "bc = 0 \<or> bc < k" by (simp add: st)
  then show ?case
    unfolding for_loop_Suc st by (auto simp: nearest_step_def Let_def)
qed

lemma nearest_channel_less: "nearest_channel centres p < N_CHANNELS"
  using nearest_loop_range [of N_CHANNELS centres p "10 ^ 30"]
  by (auto simp: nearest_channel_def N_CHANNELS_def)

lemma assign_inv_step:
  assumes inv: "assign_inv n k st" and k: "k < n"
  shows "assign_inv n (Suc k) (assign_step centres phi k st)"
proof -
  obtain as cs where st: "st = (as, cs)" by (cases st)
  define b where "b = nearest_channel centres (phi ! k)"
  have b: "b < N_CHANNELS" by (simp add: b_def nearest_channel_less)
  have step: "assign_step centres phi k st = (as[k := b], cs[b := cs ! b + 1])"
    by (simp add: st assign_step_def b_def Let_def)
  from inv st have len: "length as = n" "length cs = N_CHANNELS"
    and rng: "\<forall>j<k. as ! j < N_CHANNELS"
    and cnt: "\<forall>c<N_CHANNELS. cs ! c = int (card {j. j < k \<and> as ! j = c})"
    by (simp_all add: assign_inv_def)
  have same: "{j. j < k \<and> as[k := b] ! j = c} = {j. j < k \<and> as ! j = c}" for c
    by auto
  have "as[k := b] ! j < N_CHANNELS" if "j < Suc k" for j
    using that rng b k len by (cases "j = k") (auto simp: less_Suc_eq)
  moreover have "cs[b := cs ! b + 1] ! c = int (card {j. j < Suc k \<and> as[k := b] ! j = c})"
    if "c < N_CHANNELS" for c
  proof -
    have "card {j. j < Suc k \<and> as[k := b] ! j = c}
          = card {j. j < k \<and> as[k := b] ! j = c} + (if as[k := b] ! k = c then 1 else 0)"
      by (rule card_filter_Suc)
    also have "\<dots> = card {j. j < k \<and> as ! j = c} + (if b = c then 1 else 0)"
      using k len by (simp add: same)
    finally show ?thesis
      using cnt that len b by (cases "b = c") auto
  qed
  ultimately show ?thesis
    using len by (simp add: step assign_inv_def)
qed

lemma assign_inv_loop:
  "k \<le> n \<Longrightarrow>
   assign_inv n k (for_loop k (assign_step centres phi) (replicate n 0, replicate N_CHANNELS 0))"
proof (induction k)
  case 0
  then show ?case by (simp add: for_loop_0 assign_inv_def)
next
  case (Suc k)
  then show ?case by (simp add: for_loop_Suc assign_inv_step)
qed

lemma sum_counts_eq:
  assumes "\<forall>j<k. (as :: nat list) ! j < m"
  shows "(\<Sum>c<m. card {j. j < k \<and> as ! j = c}) = k"
  using assms
proof (induction k)
  case 0
  then show ?case by simp
next
  case (Suc k)
  have "(\<Sum>c<m. card {j. j < Suc k \<and> as ! j = c})
        = (\<Sum>c<m. card {j. j < k \<and> as ! j = c} + (if as ! k = c then 1 else 0))"
    by (simp add: card_filter_Suc)
  also have "\<dots> = (\<Sum>c<m. card {j. j < k \<and> as ! j = c}) + (\<Sum>c<m. if as ! k = c then 1 else 0)"
    by (simp add: sum.distrib)
  also have "(\<Sum>c<m. if as ! k = c then 1 else 0) = (1::nat)"
    using Suc.prems by simp
  finally show ?case using Suc by simp
qed

text \<open>What the constructor establishes.\<close>

lemma new_CompassSensor_partition:
  assumes "new_CompassSensor n_cry contrast mean_yield sigma = Inr s"
  shows "m_n_cry s = n_cry" "m_contrast s = contrast" "m_mean_yield s = mean_yield"
    "m_sigma_sensor s = sigma" "0 \<le> n_cry"
    "assign_inv (nat n_cry) (nat n_cry) (m_assignments s, m_channel_counts s)"
proof -
  from assms have n: "0 \<le> n_cry"
    and s: "s = init_molecules \<lparr> m_n_cry = n_cry, m_contrast = contrast, m_mean_yield = mean_yield,
          m_sigma_sensor = sigma, m_phi = [], m_assignments = [],
          m_channel_counts = replicate N_CHANNELS 0 \<rparr>"
    by (auto simp: new_CompassSensor_def split: if_splits)
  show "0 \<le> n_cry" by (rule n)
  show "m_n_cry s = n_cry" "m_contrast s = contrast" "m_mean_yield s = mean_yield"
    "m_sigma_sensor s = sigma"
    by (simp_all add: s init_molecules_def Let_def split: prod.splits)
  define centres where "centres = for_loop N_CHANNELS
      (\<lambda>c cs. cs[c := TWO_PI * real c / real N_CHANNELS]) (replicate N_CHANNELS 0)"
  define phi where "phi = for_loop (nat n_cry)
      (\<lambda>k ph. ph[k := TWO_PI * real k / real_of_int n_cry]) (replicate (nat n_cry) 0)"
  obtain as cs where loop: "for_loop (nat n_cry) (assign_step centres phi)
      (replicate (nat n_cry) 0, replicate N_CHANNELS 0) = (as, cs)"
    by (cases "for_loop (nat n_cry) (assign_step centres phi)
      (replicate (nat n_cry) 0, replicate N_CHANNELS 0)")
  have "m_assignments s = as" "m_channel_counts s = cs"
    using loop by (simp_all add: s init_molecules_def Let_def centres_def phi_def)
  then show "assign_inv (nat n_cry) (nat n_cry) (m_assignments s, m_channel_counts s)"
    using assign_inv_loop [of "nat n_cry" "nat n_cry" centres phi] loop by simp
qed


section \<open>Compass sensor: reading\<close>

lemma read_loop_noiseless:
  assumes sigma: "m_sigma_sensor s \<le> 0"
    and rng: "\<forall>j<n. m_assignments s ! j < N_CHANNELS"
    and k: "k \<le> n"
  shows "\<exists>S. for_loop k (read_step s heading) (replicate N_CHANNELS 0, g) = (S, g)
            \<and> length S = N_CHANNELS
            \<and> (\<forall>c<N_CHANNELS. S ! c =
                  (\<Sum>j | j < k \<and> m_assignments s ! j = c.
                     singlet_yield (heading - m_phi s ! j) (m_contrast s) (m_mean_yield s)))"
  using k
proof (induction k)
  case 0
  then show ?case by (simp add: for_loop_0)
next
  case (Suc k)
  then obtain S where S: "for_loop k (read_step s heading) (replicate N_CHANNELS 0, g) = (S, g)"
    and len: "length S = N_CHANNELS"
    and val: "\<forall>c<N_CHANNELS. S ! c =
                  (\<Sum>j | j < k \<and> m_assignments s ! j = c.
                     singlet_yield (heading - m_phi s ! j) (m_contrast s) (m_mean_yield s))"
    by auto
  define a where "a = m_assignments s ! k"
  define y where "y = singlet_yield (heading - m_phi s ! k) (m_contrast s) (m_mean_yield s)"
  have a: "a < N_CHANNELS" using rng Suc.prems by (simp add: a_def)
  have step: "for_loop (Suc k) (read_step s heading) (replicate N_CHANNELS 0, g)
              = (S[a := S ! a + y], g)"
    using sigma by (simp add: for_loop_Suc S read_step_def Let_def a_def y_def)
  have "S[a := S ! a + y] ! c =
          (\<Sum>j | j < Suc k \<and> m_assignments s ! j = c.
             singlet_yield (heading - m_phi s ! j) (m_contrast s) (m_mean_yield s))"
    if c: "c < N_CHANNELS" for c
    using val c len a by (cases "a = c") (auto simp: sum_filter_Suc a_def y_def)
  then show ?case using step len by simp
qed

lemma average_loop:
  assumes "k \<le> N_CHANNELS"
  shows "length (for_loop k (average_step s S) (replicate N_CHANNELS 0)) = N_CHANNELS
       \<and> (\<forall>c<N_CHANNELS. for_loop k (average_step s S) (replicate N_CHANNELS 0) ! c =
             (if c < k \<and> m_channel_counts s ! c > 0
              then S ! c / real_of_int (m_channel_counts s ! c) else 0))"
  using assms
proof (induction k)
  case 0
  then show ?case by (simp add: for_loop_0)
next
  case (Suc k)
  then show ?case
    by (auto simp: for_loop_Suc average_step_def nth_list_update less_Suc_eq)
qed

lemma average_checked_loop:
  "for_loop k (average_step_checked s S) (Some ch) = Some (for_loop k (average_step s S) ch)"
  by (induction k) (simp_all add: for_loop_0 for_loop_Suc average_step_checked_def
      average_step_def fdiv_def)

lemma read_checked_eq: "read_checked s heading g = (Some (fst (read s heading g)), snd (read s heading g))"
  by (simp add: read_checked_def read_def average_checked_loop split: prod.splits)

text \<open>
  Claim C8.  For a sensor built by the constructor with zero sensor noise, every channel
  of \<open>read\<close> is the arithmetic mean of the singlet yields of the molecules assigned
  to it (a channel without molecules reads 0), and no random draw is made.  The
  assignment gives every molecule one channel index below \<open>N_CHANNELS\<close>, each channel
  count is the number of its molecules, and the counts add up to \<open>n_cry\<close>.
\<close>

theorem noiseless_read_is_channel_mean:
  assumes new: "new_CompassSensor n_cry contrast mean_yield 0 = Inr s"
    and c: "c < N_CHANNELS"
  shows "fst (read s heading g) ! c =
           (if card {k. k < nat n_cry \<and> m_assignments s ! k = c} = 0 then 0
            else (\<Sum>k | k < nat n_cry \<and> m_assignments s ! k = c.
                    singlet_yield (heading - m_phi s ! k) contrast mean_yield)
                 / real (card {k. k < nat n_cry \<and> m_assignments s ! k = c}))
       \<and> snd (read s heading g) = g
       \<and> m_channel_counts s ! c = int (card {k. k < nat n_cry \<and> m_assignments s ! k = c})
       \<and> (\<forall>k < nat n_cry. m_assignments s ! k < N_CHANNELS)
       \<and> (\<Sum>c<N_CHANNELS. m_channel_counts s ! c) = n_cry"
proof -
  note f = new_CompassSensor_partition [OF new]
  from f(6) have rng: "\<forall>k < nat n_cry. m_assignments s ! k < N_CHANNELS"
    and cnt: "\<forall>c<N_CHANNELS. m_channel_counts s ! c
                = int (card {k. k < nat n_cry \<and> m_assignments s ! k = c})"
    by (simp_all add: assign_inv_def)
  obtain S where S: "for_loop (nat n_cry) (read_step s heading) (replicate N_CHANNELS 0, g) = (S, g)"
    and val: "\<forall>c<N_CHANNELS. S ! c =
                  (\<Sum>j | j < nat n_cry \<and> m_assignments s ! j = c.
                     singlet_yield (heading - m_phi s ! j) (m_contrast s) (m_mean_yield s))"
    using read_loop_noiseless [of s "nat n_cry" "nat n_cry" heading g] rng f(4) by auto
  have rd: "read s heading g = (for_loop N_CHANNELS (average_step s S) (replicate N_CHANNELS 0), g)"
    by (simp add: read_def f(1) S)
  have "fst (read s heading g) ! c =
          (if m_channel_counts s ! c > 0 then S ! c / real_of_int (m_channel_counts s ! c) else 0)"
    using average_loop [of N_CHANNELS s S] c by (simp add: rd)
  then have 1: "fst (read s heading g) ! c =
           (if card {k. k < nat n_cry \<and> m_assignments s ! k = c} = 0 then 0
            else (\<Sum>k | k < nat n_cry \<and> m_assignments s ! k = c.
                    singlet_yield (heading - m_phi s ! k) contrast mean_yield)
                 / real (card {k. k < nat n_cry \<and> m_assignments s ! k = c}))"
    using cnt val c by (simp add: f(2) f(3))
  have "(\<Sum>c<N_CHANNELS. m_channel_counts s ! c)
        = (\<Sum>c<N_CHANNELS. int (card {k. k < nat n_cry \<and> m_assignments s ! k = c}))"
    using cnt by simp
  also have "\<dots> = int (\<Sum>c<N_CHANNELS. card {k. k < nat n_cry \<and> m_assignments s ! k = c})"
    by simp
  also have "\<dots> = int (nat n_cry)"
    using sum_counts_eq [of "nat n_cry" "m_assignments s" N_CHANNELS] rng by simp
  finally have 2: "(\<Sum>c<N_CHANNELS. m_channel_counts s ! c) = n_cry"
    using f(5) by simp
  from 1 2 rng cnt c show ?thesis by (simp add: rd)
qed


theorem noiseless_read_witness:
  "new_CompassSensor 2 0.15 0.5 0
     = Inr (init_molecules \<lparr> m_n_cry = 2, m_contrast = 0.15, m_mean_yield = 0.5,
          m_sigma_sensor = 0, m_phi = [], m_assignments = [],
          m_channel_counts = replicate N_CHANNELS 0 \<rparr>)
   \<and> (0::nat) < N_CHANNELS
   \<and> (\<Sum>c<N_CHANNELS. m_channel_counts (init_molecules \<lparr> m_n_cry = 2, m_contrast = 0.15,
          m_mean_yield = 0.5, m_sigma_sensor = 0, m_phi = [], m_assignments = [],
          m_channel_counts = replicate N_CHANNELS 0 \<rparr>) ! c) = 2
   \<and> snd (read (init_molecules \<lparr> m_n_cry = 2, m_contrast = 0.15,
          m_mean_yield = 0.5, m_sigma_sensor = 0, m_phi = [], m_assignments = [],
          m_channel_counts = replicate N_CHANNELS 0 \<rparr>) 0 (const_rng 1)) = const_rng 1"
proof -
  have new: "new_CompassSensor 2 0.15 0.5 0
     = Inr (init_molecules \<lparr> m_n_cry = 2, m_contrast = 0.15, m_mean_yield = 0.5,
          m_sigma_sensor = 0, m_phi = [], m_assignments = [],
          m_channel_counts = replicate N_CHANNELS 0 \<rparr>)"
    by (simp add: new_CompassSensor_def)
  have c: "(0::nat) < N_CHANNELS" by (simp add: N_CHANNELS_def)
  show ?thesis
    using noiseless_read_is_channel_mean [OF new c, of 0 "const_rng 1"] new c by simp
qed

section \<open>Division by zero\<close>

lemma perturbation_Gaussian_checked_eq:
  "perturbation_Gaussian_checked x y a = Some (perturbation_Gaussian x y a)"
proof -
  define r where "r = sqrt ((x - g_px a) * (x - g_px a) + (y - g_py a) * (y - g_py a))"
  have r0: "0 \<le> r" by (simp add: r_def)
  show ?thesis
  proof (cases "r \<ge> 3 * g_radius a")
    case True
    then show ?thesis
      by (simp add: perturbation_Gaussian_checked_def perturbation_Gaussian_def Let_def r_def)
  next
    case False
    with r0 have rad: "g_radius a \<noteq> 0" by auto
    show ?thesis
    proof (cases "r < 1 / 10 ^ 6")
      case True
      with False rad show ?thesis
        by (simp add: perturbation_Gaussian_checked_def perturbation_Gaussian_def Let_def
            r_def fdiv_def)
    next
      case big: False
      then have "r \<noteq> 0" by auto
      with False rad big show ?thesis
        by (simp add: perturbation_Gaussian_checked_def perturbation_Gaussian_def Let_def
            r_def fdiv_def)
    qed
  qed
qed

lemma perturbation_Gaussian_centre:
  "sqrt ((x - g_px a) * (x - g_px a) + (y - g_py a) * (y - g_py a)) < 1 / 10 ^ 6
   \<Longrightarrow> perturbation_Gaussian x y a = (0, 0, 0)"
  by (simp add: perturbation_Gaussian_def Let_def)

lemma dipole_R5_nonzero:
  assumes "d \<noteq> (0::real)"
  shows "(u * u + v * v + d * d) powr 2.5 \<noteq> 0"
proof -
  have "0 < d * d" using assms by (auto simp: zero_less_mult_iff)
  moreover have "0 \<le> u * u + v * v" by simp
  ultimately have "0 < u * u + v * v + d * d" by linarith
  then show ?thesis by simp
qed

lemma perturbation_Dipole_checked_eq:
  "d_depth a \<noteq> 0 \<Longrightarrow> perturbation_Dipole_checked x y a = Some (perturbation_Dipole x y a)"
  using dipole_R5_nonzero [of "d_depth a" "x - d_px a" "y - d_py a"]
  by (simp add: perturbation_Dipole_checked_def perturbation_Dipole_def Let_def fdiv_def)

lemma perturbation_Fault_checked_eq:
  "f_width a \<noteq> 0 \<Longrightarrow> perturbation_Fault_checked x y a = Some (perturbation_Fault x y a)"
  by (simp add: perturbation_Fault_checked_def perturbation_Fault_def Let_def fdiv_def)

lemma read_empty_channel:
  assumes "c < N_CHANNELS" "m_channel_counts s ! c = 0"
  shows "fst (read s heading g) ! c = 0"
proof -
  obtain S g' where "for_loop (nat (m_n_cry s)) (read_step s heading) (replicate N_CHANNELS 0, g) = (S, g')"
    by (cases "for_loop (nat (m_n_cry s)) (read_step s heading) (replicate N_CHANNELS 0, g)")
  then have "fst (read s heading g) = for_loop N_CHANNELS (average_step s S) (replicate N_CHANNELS 0)"
    by (simp add: read_def)
  with average_loop [of N_CHANNELS s S] assms show ?thesis by simp
qed

text \<open>
  Claim C7, as amended.  The channel average of \<open>read\<close> never divides by zero, and a
  channel without molecules reads 0.  The Gaussian perturbation never divides by zero
  (whatever its radius) and is the zero vector closer than \<open>10\<^sup>-\<^sup>6\<close> to its centre.  The
  Dipole and the Fault perturbation have no guard: the Dipole does not divide by zero
  when its depth is not zero, the Fault when its width is not zero.  (The Gradient
  perturbation does not divide.)
\<close>

theorem guarded_divisions:
  "read_checked s heading g = (Some (fst (read s heading g)), snd (read s heading g))
   \<and> (c < N_CHANNELS \<and> m_channel_counts s ! c = 0 \<longrightarrow> fst (read s heading g) ! c = 0)
   \<and> perturbation_Gaussian_checked x y a = Some (perturbation_Gaussian x y a)
   \<and> (sqrt ((x - g_px a) * (x - g_px a) + (y - g_py a) * (y - g_py a)) < 1 / 10 ^ 6
        \<longrightarrow> perturbation_Gaussian x y a = (0, 0, 0))
   \<and> (d_depth d \<noteq> 0 \<longrightarrow> perturbation_Dipole_checked x y d = Some (perturbation_Dipole x y d))
   \<and> (f_width f \<noteq> 0 \<longrightarrow> perturbation_Fault_checked x y f = Some (perturbation_Fault x y f))"
  using read_checked_eq read_empty_channel perturbation_Gaussian_checked_eq
    perturbation_Gaussian_centre perturbation_Dipole_checked_eq perturbation_Fault_checked_eq
  by blast

text \<open>A sensor with a single molecule: channel 0 holds it, the other channels are empty.\<close>

lemma wrap_pi_0: "wrap_pi 0 = 0"
  by (simp add: wrap_pi_def fmod_def trunc_real_def Let_def)

lemma nearest_channel_first:
  assumes "wrap_pi (p - centres ! 0) = 0"
  shows "nearest_channel centres p = 0"
proof -
  have "for_loop (Suc k) (nearest_step centres p) (10 ^ 30, 0) = (0, 0)" for k
  proof (induction k)
    case 0
    then show ?case using assms by (simp add: for_loop_Suc for_loop_0 nearest_step_def)
  next
    case (Suc k)
    show ?case
      unfolding for_loop_Suc [of "Suc k"] Suc by (simp add: nearest_step_def)
  qed
  from this [of 7] show ?thesis
    by (simp add: nearest_channel_def N_CHANNELS_def)
qed

lemma single_molecule_sensor:
  "new_CompassSensor 1 contrast mean_yield sigma =
     Inr \<lparr> m_n_cry = 1, m_contrast = contrast, m_mean_yield = mean_yield,
           m_sigma_sensor = sigma, m_phi = [0], m_assignments = [0],
           m_channel_counts = [1, 0, 0, 0, 0, 0, 0, 0] \<rparr>"
proof -
  have c0: "for_loop N_CHANNELS (\<lambda>c cs. cs[c := TWO_PI * real c / real N_CHANNELS])
              (replicate N_CHANNELS 0) ! 0 = 0"
    by (simp add: N_CHANNELS_def for_loop_def eval_nat_numeral)
  have phi: "for_loop (Suc 0) (\<lambda>k ph. ph[k := TWO_PI * real k / real_of_int 1]) (replicate (Suc 0) 0) = [0]"
    by (simp add: for_loop_def)
  show ?thesis
    by (simp add: new_CompassSensor_def init_molecules_def Let_def phi for_loop_Suc for_loop_0
        assign_step_def nearest_channel_first c0 wrap_pi_0 N_CHANNELS_def eval_nat_numeral)
qed

theorem guarded_divisions_witness:
  "((1::nat) < N_CHANNELS
      \<and> m_channel_counts \<lparr> m_n_cry = 1, m_contrast = 0.15, m_mean_yield = 0.5,
           m_sigma_sensor = 0, m_phi = [0], m_assignments = [0],
           m_channel_counts = [1, 0, 0, 0, 0, 0, 0, 0] \<rparr> ! 1 = 0)
   \<and> fst (read \<lparr> m_n_cry = 1, m_contrast = 0.15, m_mean_yield = 0.5,
           m_sigma_sensor = 0, m_phi = [0], m_assignments = [0],
           m_channel_counts = [1, 0, 0, 0, 0, 0, 0, 0] \<rparr> 0 (const_rng 0)) ! 1 = 0
   \<and> sqrt ((500 - g_px (GaussianAnomaly 500 500 5 50)) * (500 - g_px (GaussianAnomaly 500 500 5 50))
         + (500 - g_py (GaussianAnomaly 500 500 5 50)) * (500 - g_py (GaussianAnomaly 500 500 5 50)))
       < 1 / 10 ^ 6
   \<and> perturbation_Gaussian 500 500 (GaussianAnomaly 500 500 5 50) = (0, 0, 0)
   \<and> d_depth (DipoleAnomaly 500 500 5 50) \<noteq> 0
   \<and> perturbation_Dipole_checked 500 500 (DipoleAnomaly 500 500 5 50)
       = Some (perturbation_Dipole 500 500 (DipoleAnomaly 500 500 5 50))
   \<and> f_width (FaultAnomaly 500 500 0 3 50) \<noteq> 0
   \<and> perturbation_Fault_checked 500 500 (FaultAnomaly 500 500 0 3 50)
       = Some (perturbation_Fault 500 500 (FaultAnomaly 500 500 0 3 50))"
  using guarded_divisions
    [of "\<lparr> m_n_cry = 1, m_contrast = 0.15, m_mean_yield = 0.5,
           m_sigma_sensor = 0, m_phi = [0], m_assignments = [0],
           m_channel_counts = [1, 0, 0, 0, 0, 0, 0, 0] \<rparr>" 0 "const_rng 0" 1
        500 500 "GaussianAnomaly 500 500 5 50" "DipoleAnomaly 500 500 5 50"
        "FaultAnomaly 500 500 0 3 50"]
  by (simp add: N_CHANNELS_def)

text \<open>
  Claim C7 as stated fails for the Dipole (and not all divisions are guarded: the
  Fault's is not either).  With depth 0 the Dipole's divisor \<open>(\<rho>\<^sup>2 + depth\<^sup>2)\<^sup>2\<^sup>.\<^sup>5\<close> is zero
  at the centre and the division is executed; with a positive depth the perturbation at
  the centre has a vertical component and is not the zero vector.  With width 0 the
  Fault divides by zero.
\<close>

theorem dipole_unguarded_counterexample:
  "perturbation_Dipole_checked 500 500 (DipoleAnomaly 500 500 5 0) = None
   \<and> perturbation_Dipole 500 500 (DipoleAnomaly 500 500 5 50) \<noteq> (0, 0, 0)
   \<and> perturbation_Fault_checked 500 600 (FaultAnomaly 500 500 0 3 0) = None"
proof -
  have 1: "perturbation_Dipole_checked 500 500 (DipoleAnomaly 500 500 5 0) = None"
    by (simp add: perturbation_Dipole_checked_def fdiv_def)
  have "(5::real) powr 2.5 \<noteq> 0" "(2500::real) powr 2.5 \<noteq> 0"
    by simp_all
  then have 2: "perturbation_Dipole 500 500 (DipoleAnomaly 500 500 5 50) \<noteq> (0, 0, 0)"
    by (simp add: perturbation_Dipole_def)
  have 3: "perturbation_Fault_checked 500 600 (FaultAnomaly 500 500 0 3 0) = None"
    by (simp add: perturbation_Fault_checked_def fdiv_def)
  from 1 2 3 show ?thesis by simp
qed

section \<open>The eight preferred directions\<close>

lemma ring_angles:
  "for_loop N (\<lambda>i ph. ph[i := 2 * pi * real i / real N]) (replicate N 0)
     = [0, pi / 4, pi / 2, pi * 3 / 4, pi, pi * 5 / 4, 3 * pi / 2, pi * 7 / 4]"
  by (simp add: N_def for_loop_def eval_nat_numeral)

lemma cos_135: "cos (pi * 3 / 4) = - (sqrt 2 / 2)"
proof -
  have "pi * 3 / 4 = pi - pi / 4" by simp
  then show ?thesis by (simp only: cos_pi_minus cos_45)
qed

lemma sin_135: "sin (pi * 3 / 4) = sqrt 2 / 2"
proof -
  have "pi * 3 / 4 = pi - pi / 4" by simp
  then show ?thesis by (simp only: sin_pi_minus sin_45)
qed

lemma cos_225: "cos (pi * 5 / 4) = - (sqrt 2 / 2)"
proof -
  have "pi * 5 / 4 = pi / 4 + pi" by simp
  then show ?thesis by (simp only: cos_periodic_pi cos_45)
qed

lemma sin_225: "sin (pi * 5 / 4) = - (sqrt 2 / 2)"
proof -
  have "pi * 5 / 4 = pi / 4 + pi" by simp
  then show ?thesis by (simp only: sin_periodic_pi sin_45)
qed

lemma cos_270: "cos (3 * pi / 2) = 0" "cos (pi * 3 / 2) = 0"
proof -
  have "3 * pi / 2 = pi / 2 + pi" "pi * 3 / 2 = pi / 2 + pi" by simp_all
  then show "cos (3 * pi / 2) = 0" "cos (pi * 3 / 2) = 0"
    by (simp_all only: cos_periodic_pi cos_pi_half minus_zero)
qed

lemma sin_270: "sin (3 * pi / 2) = - 1" "sin (pi * 3 / 2) = - 1"
proof -
  have "3 * pi / 2 = pi / 2 + pi" "pi * 3 / 2 = pi / 2 + pi" by simp_all
  then show "sin (3 * pi / 2) = - 1" "sin (pi * 3 / 2) = - 1"
    by (simp_all only: sin_periodic_pi sin_pi_half)
qed

lemma cos_315: "cos (pi * 7 / 4) = sqrt 2 / 2"
proof -
  have "pi * 7 / 4 = 2 * pi - pi / 4" by simp
  then show ?thesis by (simp only: cos_2pi_minus cos_45)
qed

lemma sin_315: "sin (pi * 7 / 4) = - (sqrt 2 / 2)"
proof -
  have "pi * 7 / 4 = 2 * pi - pi / 4" by simp
  then show ?thesis by (simp only: sin_2pi_minus sin_45)
qed

lemmas ring_trig = cos_45 sin_45 cos_135 sin_135 cos_225 sin_225 cos_270 sin_270 cos_315 sin_315

section \<open>Path integration: walking north\<close>

lemma update_north:
  assumes "m_leak c = 0" "m_gain c = 1"
    and "m_cpu4_phi c = [0, pi / 4, pi / 2, pi * 3 / 4, pi, pi * 5 / 4, 3 * pi / 2, pi * 7 / 4]"
    and "m_memory c = [m0, m1, m2, m3, m4, m5, m6, m7]"
  shows "update c 0 1 dt =
           c\<lparr>m_memory := [m0 + dt, m1 + sqrt 2 / 2 * dt, m2, m3, m4, m5, m6, m7 + sqrt 2 / 2 * dt]\<rparr>"
  using assms
  by (simp add: update_def N_def for_loop_def eval_nat_numeral update_step_def Let_def ring_trig)

lemma walk_north_memory:
  "(((\<lambda>c. update c 0 1 dt) ^^ n) (new_CPU4 0 1)) =
     (new_CPU4 0 1)\<lparr>m_memory := [real n * dt, real n * (sqrt 2 / 2 * dt), 0, 0, 0, 0, 0,
                                  real n * (sqrt 2 / 2 * dt)]\<rparr>"
proof (induction n)
  case 0
  show ?case by (simp add: new_CPU4_def N_def eval_nat_numeral)
next
  case (Suc n)
  define c where "c = (new_CPU4 0 1)\<lparr>m_memory := [real n * dt, real n * (sqrt 2 / 2 * dt), 0, 0, 0, 0, 0,
                                  real n * (sqrt 2 / 2 * dt)]\<rparr>"
  have "update c 0 1 dt
        = c\<lparr>m_memory := [real n * dt + dt, real n * (sqrt 2 / 2 * dt) + sqrt 2 / 2 * dt,
              0, 0, 0, 0, 0, real n * (sqrt 2 / 2 * dt) + sqrt 2 / 2 * dt]\<rparr>"
    by (rule update_north) (simp_all add: c_def new_CPU4_def ring_angles)
  then show ?case
    by (simp add: Suc c_def distrib_right)
qed

lemma walk_north_displacement:
  "displacement (((\<lambda>c. update c 0 1 dt) ^^ n) (new_CPU4 0 1)) = (2 * (real n * dt), 0)"
proof -
  have "sqrt 2 * sqrt 2 = (2::real)" by simp
  then have "real n * (sqrt 2 / 2 * dt) * (sqrt 2 / 2) = real n * dt / 2"
    by (simp add: field_simps)
  then show ?thesis
    unfolding walk_north_memory
    by (simp add: displacement_def displacement_step_def N_def for_loop_def
        eval_nat_numeral new_CPU4_def ring_trig)
qed

lemma atan2_negative_axis: "0 < u \<Longrightarrow> atan2_signed nv nu 0 (- u) = (if nv then - pi else pi)"
  by (simp add: atan2_signed_def)

lemma walk_north_home_vector:
  assumes "0 < real n * dt"
  shows "home_vector nv nu (((\<lambda>c. update c 0 1 dt) ^^ n) (new_CPU4 0 1))
           = \<lparr> hv_distance = 2 * (real n * dt), hv_direction = (if nv then - pi else pi) \<rparr>"
proof -
  have "sqrt (2 * (real n * dt) * (2 * (real n * dt))) = \<bar>2 * (real n * dt)\<bar>"
    by (rule real_sqrt_abs2)
  then have "sqrt (2 * (real n * dt) * (2 * (real n * dt))) = 2 * (real n * dt)"
    using assms by simp
  moreover have "atan2_signed nv nu (- 0) (- (2 * (real n * dt))) = (if nv then - pi else pi)"
    using assms atan2_negative_axis [of "2 * (real n * dt)" nv nu] by simp
  ultimately show ?thesis
    by (simp only: home_vector_def walk_north_displacement Let_def prod.case
        mult_zero_right add_0_right)
qed

text \<open>
  Claim C3, as amended.  With zero leak and unit gain, \<open>n \<ge> 1\<close> updates with heading 0,
  speed 1 and time step \<open>dt > 0\<close> (total time \<open>T = n * dt\<close>) give a home vector of
  distance exactly \<open>2 * T\<close>: the population decode is not normalised, and three of the
  eight units are driven (weights \<open>1, \<surd>2/2, \<surd>2/2\<close>).  Its direction is \<open>\<pi>\<close> in absolute
  value, \<open>-\<pi>\<close> or \<open>\<pi>\<close> by the sign of the zero \<^verbatim>\<open>-dy\<close> that \<^verbatim>\<open>std::atan2\<close> receives: \<open>-\<pi>\<close>
  when \<^verbatim>\<open>-dy\<close> is \<^verbatim>\<open>-0.0\<close>, as it is when \<open>dy\<close> is computed as exactly zero.
\<close>

theorem north_walk_home_vector:
  assumes "0 < dt" and "0 < n"
  shows "home_vector nv nu (((\<lambda>c. update c 0 1 dt) ^^ n) (new_CPU4 0 1))
           = \<lparr> hv_distance = 2 * (real n * dt), hv_direction = (if nv then - pi else pi) \<rparr>
       \<and> \<bar>hv_direction (home_vector nv nu (((\<lambda>c. update c 0 1 dt) ^^ n) (new_CPU4 0 1)))\<bar> = pi"
proof -
  have "home_vector nv nu (((\<lambda>c. update c 0 1 dt) ^^ n) (new_CPU4 0 1))
           = \<lparr> hv_distance = 2 * (real n * dt), hv_direction = (if nv then - pi else pi) \<rparr>"
    using assms by (intro walk_north_home_vector) simp
  then show ?thesis by simp
qed

theorem north_walk_home_vector_witness:
  "(0::real) < 1 / 100 \<and> (0::nat) < 100
   \<and> home_vector True True (((\<lambda>c. update c 0 1 (1 / 100)) ^^ 100) (new_CPU4 0 1))
       = \<lparr> hv_distance = 2, hv_direction = - pi \<rparr>
   \<and> home_vector False True (((\<lambda>c. update c 0 1 (1 / 100)) ^^ 100) (new_CPU4 0 1))
       = \<lparr> hv_distance = 2, hv_direction = pi \<rparr>"
  using north_walk_home_vector [of "1 / 100" 100 True True]
    north_walk_home_vector [of "1 / 100" 100 False True] by simp

text \<open>
  Claim C3 as stated fails: after walking north for \<open>T = 1\<close> (100 steps of 0.01) the
  decoded distance is 2, not approximately 1.
\<close>

theorem north_walk_distance_counterexample:
  "hv_distance (home_vector True True (((\<lambda>c. update c 0 1 (1 / 100)) ^^ 100) (new_CPU4 0 1))) = 2
   \<and> \<not> \<bar>hv_distance (home_vector True True (((\<lambda>c. update c 0 1 (1 / 100)) ^^ 100) (new_CPU4 0 1))) - 1\<bar>
         \<le> 1 / 2"
  using walk_north_home_vector [of 100 "1 / 100" True True] by simp

section \<open>Ring attractor: the rates stay clamped\<close>

lemma clamp_range: "lo \<le> hi \<Longrightarrow> lo \<le> clamp v lo hi \<and> clamp v lo hi \<le> hi"
  by (simp add: clamp_def)

lemma length_rate_step [simp]: "length (rate_step ra dt exc inh I_mag I_omega noise i r) = length r"
  by (simp add: rate_step_def Let_def)

lemma rate_loop_range:
  assumes "0 \<le> m_r_max ra" "k \<le> length r"
  shows "length (for_loop k (rate_step ra dt exc inh I_mag I_omega noise) r) = length r
       \<and> (\<forall>i<k. 0 \<le> for_loop k (rate_step ra dt exc inh I_mag I_omega noise) r ! i
               \<and> for_loop k (rate_step ra dt exc inh I_mag I_omega noise) r ! i \<le> m_r_max ra)"
  using assms(2)
proof (induction k)
  case 0
  then show ?case by (simp add: for_loop_0)
next
  case (Suc k)
  define r' where "r' = for_loop k (rate_step ra dt exc inh I_mag I_omega noise) r"
  from Suc have len: "length r' = length r"
    and old: "\<forall>i<k. 0 \<le> r' ! i \<and> r' ! i \<le> m_r_max ra"
    by (simp_all add: r'_def)
  have k: "k < length r'" using Suc.prems len by simp
  have "0 \<le> rate_step ra dt exc inh I_mag I_omega noise k r' ! i
        \<and> rate_step ra dt exc inh I_mag I_omega noise k r' ! i \<le> m_r_max ra" if "i < Suc k" for i
  proof (cases "i = k")
    case True
    then show ?thesis
      using k clamp_range [OF assms(1)] by (simp add: rate_step_def Let_def)
  next
    case False
    with that have "i < k" by simp
    with old k show ?thesis by (simp add: rate_step_def Let_def)
  qed
  then show ?case
    by (simp add: for_loop_Suc r'_def [symmetric] len)
qed

lemma length_init_bump: "length (m_r (fst (init_bump ra g))) = length (m_r ra)"
proof -
  have "length (for_loop k (\<lambda>i r.
                  (let d = \<bar>int i - idx\<bar>;
                       d = min d (int N - d)
                   in r[i := max 0 (0.5 - 0.15 * real_of_int d)])) r0) = length r0" for k idx r0
    by (induction k) (simp_all add: for_loop_0 for_loop_Suc Let_def)
  then show ?thesis
    by (simp add: init_bump_def split: prod.splits)
qed

lemma new_RingAttractor_fields:
  "length (m_r (fst (new_RingAttractor tau w_exc w_inh g_mag g_omega threshold r_max noise_sigma g))) = N"
  "m_r_max (fst (new_RingAttractor tau w_exc w_inh g_mag g_omega threshold r_max noise_sigma g)) = r_max"
  "m_noise_sigma (fst (new_RingAttractor tau w_exc w_inh g_mag g_omega threshold r_max noise_sigma g))
     = noise_sigma"
  "m_tau (fst (new_RingAttractor tau w_exc w_inh g_mag g_omega threshold r_max noise_sigma g)) = tau"
  by (simp_all add: new_RingAttractor_def length_init_bump)
    (simp_all add: init_bump_def init_connectivity_def Let_def split: prod.splits)

lemma rate_loop_checked:
  assumes "m_tau ra \<noteq> 0" "k \<le> length r"
  shows "for_loop k (rate_step_checked ra dt exc inh I_mag I_omega noise) (map Some r)
         = map Some (for_loop k (rate_step ra dt exc inh I_mag I_omega noise) r)"
  using assms(2)
proof (induction k)
  case 0
  show ?case by (simp add: for_loop_0)
next
  case (Suc k)
  define r' where "r' = for_loop k (rate_step ra dt exc inh I_mag I_omega noise) r"
  have len: "length r' = length r"
    unfolding r'_def by (induction k) (simp_all add: for_loop_0 for_loop_Suc)
  have k: "k < length r'" using Suc.prems len by simp
  have "rate_step_checked ra dt exc inh I_mag I_omega noise k (map Some r')
        = map Some (rate_step ra dt exc inh I_mag I_omega noise k r')"
    using k assms(1)
    by (simp add: rate_step_checked_def rate_step_def rate_update_checked_def Let_def map_update)
  then show ?case
    using Suc by (simp add: for_loop_Suc r'_def)
qed

text \<open>
  Claim C9, as amended.  For an attractor with \<open>tau \<noteq> 0\<close> (and \<open>r_max \<ge> 0\<close>, which
  \<^verbatim>\<open>std::clamp\<close> requires, and its array of \<open>N\<close> rates), after every call of \<open>step\<close>, whatever
  the time step, the compass input, the angular velocity and the generator, the division
  by \<open>tau\<close> is a division of real numbers, so that each new rate is the number that
  \<open>RingAttractor_step\<close> gives, and it lies in \<open>[0, r_max]\<close>.  With \<open>tau = 0\<close> a rate can
  become NaN; the counterexample is with the closed forms of the ring below.
\<close>

theorem step_rates_within_bounds:
  assumes "length (m_r ra) = N" and "0 \<le> m_r_max ra" and "m_tau ra \<noteq> 0" and "i < N"
  shows "RingAttractor_step_checked ra dt compass_input angular_velocity g ! i
           = Some (m_r (fst (RingAttractor_step ra dt compass_input angular_velocity g)) ! i)
       \<and> 0 \<le> m_r (fst (RingAttractor_step ra dt compass_input angular_velocity g)) ! i
       \<and> m_r (fst (RingAttractor_step ra dt compass_input angular_velocity g)) ! i
           \<le> m_r_max (fst (RingAttractor_step ra dt compass_input angular_velocity g))"
  using rate_loop_range [of ra N "m_r ra"] rate_loop_checked [of ra N "m_r ra"] assms
  by (simp add: RingAttractor_step_def RingAttractor_step_checked_def Let_def split: prod.splits)

theorem step_rates_within_bounds_witness:
  "length (m_r (fst (new_RingAttractor 0.05 1.5 4.5 2 0.5 0 1 0.01 (const_rng 0)))) = N
   \<and> 0 \<le> m_r_max (fst (new_RingAttractor 0.05 1.5 4.5 2 0.5 0 1 0.01 (const_rng 0)))
   \<and> m_tau (fst (new_RingAttractor 0.05 1.5 4.5 2 0.5 0 1 0.01 (const_rng 0))) \<noteq> 0
   \<and> (0::nat) < N
   \<and> RingAttractor_step_checked
         (fst (new_RingAttractor 0.05 1.5 4.5 2 0.5 0 1 0.01 (const_rng 0))) 0.01 None 1 (const_rng 0) ! 0
       = Some (m_r (fst (RingAttractor_step
                (fst (new_RingAttractor 0.05 1.5 4.5 2 0.5 0 1 0.01 (const_rng 0)))
                0.01 None 1 (const_rng 0))) ! 0)
   \<and> 0 \<le> m_r (fst (RingAttractor_step
                (fst (new_RingAttractor 0.05 1.5 4.5 2 0.5 0 1 0.01 (const_rng 0)))
                0.01 None 1 (const_rng 0))) ! 0
   \<and> m_r (fst (RingAttractor_step
                (fst (new_RingAttractor 0.05 1.5 4.5 2 0.5 0 1 0.01 (const_rng 0)))
                0.01 None 1 (const_rng 0))) ! 0 \<le> 1"
proof -
  have len: "length (m_r (fst (new_RingAttractor 0.05 1.5 4.5 2 0.5 0 1 0.01 (const_rng 0)))) = N"
    by (rule new_RingAttractor_fields)
  have pos: "0 \<le> m_r_max (fst (new_RingAttractor 0.05 1.5 4.5 2 0.5 0 1 0.01 (const_rng 0)))"
    by (simp add: new_RingAttractor_fields)
  have tau: "m_tau (fst (new_RingAttractor 0.05 1.5 4.5 2 0.5 0 1 0.01 (const_rng 0))) \<noteq> 0"
    by (simp add: new_RingAttractor_fields)
  have i: "(0::nat) < N" by (simp add: N_def)
  have same: "m_r_max (fst (RingAttractor_step ra dt ci w g)) = m_r_max ra" for ra dt ci w g
    by (simp add: RingAttractor_step_def Let_def split: prod.splits)
  show ?thesis
    using step_rates_within_bounds [OF len pos tau i, of "0.01" None 1 "const_rng 0"] len pos tau i
    by (simp add: same new_RingAttractor_fields)
qed

section \<open>The agent: one step\<close>

lemma Bug_step_fields:
  fixes dt landscape b
  shows "let b' = snd (Bug_step dt landscape b);
             mag_dir = direction (magnetic_direction landscape (m_x b) (m_y b));
             rd = read (m_compass b) (m_heading b - mag_dir) (m_rng b);
             cmd = m_kappa b * sin (m_goal_heading b - (RingAttractor_heading (m_attractor b) + mag_dir));
             st = RingAttractor_step (m_attractor b) dt (Some (fst rd)) cmd (snd rd);
             h = fmod (m_heading b + (cmd * dt + m_sigma_theta b * sqrt dt * normal_out (snd st))) (2 * pi)
         in fst (Bug_step dt landscape b) = in_bounds landscape (m_x b') (m_y b')
          \<and> m_attractor b' = fst st
          \<and> m_cpu4 b' = update (m_cpu4 b) (RingAttractor_heading (fst st)) (m_speed b) dt
          \<and> m_heading b' = (if h < 0 then h + 2 * pi else h)
          \<and> m_x b' = m_x b + (m_speed b * cos (m_heading b') * dt
                               + m_sigma_xy b * sqrt dt * normal_out (normal_next (snd st)))
          \<and> m_y b' = m_y b + (m_speed b * sin (m_heading b') * dt
                               + m_sigma_xy b * sqrt dt * normal_out (normal_next (normal_next (snd st))))
          \<and> m_rng b' = normal_next (normal_next (normal_next (snd st)))
          \<and> m_history b' = m_history b @
               [\<lparr> bs_x = m_x b', bs_y = m_y b', bs_heading = m_heading b',
                  bs_estimated_heading = RingAttractor_heading (m_attractor b') + mag_dir,
                  bs_bump_amplitude = bump_amplitude (m_attractor b') \<rparr>]
          \<and> m_compass b' = m_compass b \<and> m_params b' = m_params b
          \<and> m_speed b' = m_speed b \<and> m_goal_heading b' = m_goal_heading b
          \<and> m_kappa b' = m_kappa b \<and> m_sigma_theta b' = m_sigma_theta b
          \<and> m_sigma_xy b' = m_sigma_xy b"
  by (simp add: Bug_step_def Let_def normal_distribution_def split: prod.splits)


lemma Bug_step_in_bounds:
  "fst (Bug_step dt landscape b)
     = in_bounds landscape (m_x (snd (Bug_step dt landscape b))) (m_y (snd (Bug_step dt landscape b)))"
  using Bug_step_fields [of dt landscape b] by (simp add: Let_def)

lemma Bug_step_history:
  "m_history (snd (Bug_step dt landscape b)) = m_history b @
     [\<lparr> bs_x = m_x (snd (Bug_step dt landscape b)), bs_y = m_y (snd (Bug_step dt landscape b)),
        bs_heading = m_heading (snd (Bug_step dt landscape b)),
        bs_estimated_heading = RingAttractor_heading (m_attractor (snd (Bug_step dt landscape b)))
          + direction (magnetic_direction landscape (m_x b) (m_y b)),
        bs_bump_amplitude = bump_amplitude (m_attractor (snd (Bug_step dt landscape b))) \<rparr>]"
  using Bug_step_fields [of dt landscape b] by (simp add: Let_def)

lemma Bug_step_at_rest:
  assumes "m_speed b = 0" "m_sigma_xy b = 0"
  shows "m_x (snd (Bug_step dt landscape b)) = m_x b" "m_y (snd (Bug_step dt landscape b)) = m_y b"
  using Bug_step_fields [of dt landscape b] assms by (simp_all add: Let_def)

lemma new_Bug_fields:
  assumes "new_Bug mt19937 random_device p = Inr b"
  shows "m_x b = p_x0 p" "m_y b = p_y0 p" "m_speed b = p_speed p"
    "m_goal_heading b = p_goal_heading p" "m_kappa b = p_kappa p"
    "m_sigma_theta b = p_sigma_theta p" "m_sigma_xy b = p_sigma_xy p"
    "m_history b = [\<lparr> bs_x = p_x0 p, bs_y = p_y0 p, bs_heading = m_heading b,
                       bs_estimated_heading = RingAttractor_heading (m_attractor b),
                       bs_bump_amplitude = bump_amplitude (m_attractor b) \<rparr>]"
    "0 \<le> p_heading0 p \<Longrightarrow> m_heading b = p_heading0 p"
  using assms
  by (auto simp: new_Bug_def Let_def split: prod.splits sum.splits if_splits)

lemma new_Bug_Inr:
  assumes "0 \<le> p_n_cry p"
  shows "new_Bug mt19937 random_device p = Inr (projr (new_Bug mt19937 random_device p))"
  using assms
  by (simp add: new_Bug_def new_CompassSensor_def Let_def split: prod.splits)

text \<open>
  Claim C10.  When \<open>step\<close> returns false, the state it leaves is the fully updated
  one: the attractor and the path integrator have been stepped, heading and position
  hold the integrated values, the three motion draws have been consumed, the snapshot
  of the new (out-of-bounds) position has been appended to the history, and the
  returned flag is the bounds test of the new position.
\<close>

theorem step_out_of_bounds_still_updates:
  assumes "\<not> fst (Bug_step dt landscape b)"
  shows "let b' = snd (Bug_step dt landscape b);
             mag_dir = direction (magnetic_direction landscape (m_x b) (m_y b));
             rd = read (m_compass b) (m_heading b - mag_dir) (m_rng b);
             cmd = m_kappa b * sin (m_goal_heading b - (RingAttractor_heading (m_attractor b) + mag_dir));
             st = RingAttractor_step (m_attractor b) dt (Some (fst rd)) cmd (snd rd);
             h = fmod (m_heading b + (cmd * dt + m_sigma_theta b * sqrt dt * normal_out (snd st))) (2 * pi)
         in \<not> in_bounds landscape (m_x b') (m_y b')
          \<and> m_attractor b' = fst st
          \<and> m_cpu4 b' = update (m_cpu4 b) (RingAttractor_heading (fst st)) (m_speed b) dt
          \<and> m_heading b' = (if h < 0 then h + 2 * pi else h)
          \<and> m_x b' = m_x b + (m_speed b * cos (m_heading b') * dt
                               + m_sigma_xy b * sqrt dt * normal_out (normal_next (snd st)))
          \<and> m_y b' = m_y b + (m_speed b * sin (m_heading b') * dt
                               + m_sigma_xy b * sqrt dt * normal_out (normal_next (normal_next (snd st))))
          \<and> m_rng b' = normal_next (normal_next (normal_next (snd st)))
          \<and> m_history b' = m_history b @
               [\<lparr> bs_x = m_x b', bs_y = m_y b', bs_heading = m_heading b',
                  bs_estimated_heading = RingAttractor_heading (m_attractor b') + mag_dir,
                  bs_bump_amplitude = bump_amplitude (m_attractor b') \<rparr>]"
proof -
  have out: "\<not> in_bounds landscape (m_x (snd (Bug_step dt landscape b)))
                 (m_y (snd (Bug_step dt landscape b)))"
    using assms unfolding Bug_step_in_bounds [of dt landscape b] .
  show ?thesis
    using Bug_step_fields [of dt landscape b] out unfolding Let_def by blast
qed

text \<open>An agent that stands still outside the landscape: every step reports out of
  bounds, and the history still grows.\<close>

theorem step_out_of_bounds_witness:
  "\<not> fst (Bug_step 0.01 (new_Landscape 1000 1000 50 0 (pi / 3))
            (projr (new_Bug (const_mt19937 0) 0
               (default_BugParams\<lparr>p_x0 := - 10, p_heading0 := 0, p_speed := 0, p_sigma_xy := 0,
                                  p_n_cry := 1, p_seed := 42\<rparr>))))
   \<and> m_x (snd (Bug_step 0.01 (new_Landscape 1000 1000 50 0 (pi / 3))
            (projr (new_Bug (const_mt19937 0) 0
               (default_BugParams\<lparr>p_x0 := - 10, p_heading0 := 0, p_speed := 0, p_sigma_xy := 0,
                                  p_n_cry := 1, p_seed := 42\<rparr>))))) = - 10
   \<and> length (m_history (snd (Bug_step 0.01 (new_Landscape 1000 1000 50 0 (pi / 3))
            (projr (new_Bug (const_mt19937 0) 0
               (default_BugParams\<lparr>p_x0 := - 10, p_heading0 := 0, p_speed := 0, p_sigma_xy := 0,
                                  p_n_cry := 1, p_seed := 42\<rparr>)))))) = 2"
proof -
  define p where "p = default_BugParams\<lparr>p_x0 := - 10, p_heading0 := 0, p_speed := 0,
                        p_sigma_xy := 0, p_n_cry := 1, p_seed := 42\<rparr>"
  define b where "b = projr (new_Bug (const_mt19937 0) 0 p)"
  define L where "L = new_Landscape 1000 1000 50 0 (pi / 3)"
  have "new_Bug (const_mt19937 0) 0 p = Inr b"
    unfolding b_def by (rule new_Bug_Inr) (simp add: p_def)
  note f = new_Bug_fields [OF this]
  have rest: "m_speed b = 0" "m_sigma_xy b = 0" and x: "m_x b = - 10"
    and len: "length (m_history b) = 1"
    using f by (simp_all add: p_def)
  have x': "m_x (snd (Bug_step 0.01 L b)) = - 10"
    using Bug_step_at_rest(1) [OF rest] x by simp
  then have out: "\<not> fst (Bug_step 0.01 L b)"
    by (simp add: Bug_step_in_bounds in_bounds_def)
  have "length (m_history (snd (Bug_step 0.01 L b))) = 2"
    using step_out_of_bounds_still_updates [OF out] len by (simp add: Let_def)
  with out x' show ?thesis
    by (simp add: b_def p_def L_def)
qed


section \<open>The agent: runs and call sequences\<close>

lemma Bug_steps_0 [simp]: "Bug_steps dt landscape 0 b = b"
  by (simp add: Bug_steps_def)

lemma Bug_steps_Suc: "Bug_steps dt landscape (Suc k) b = snd (Bug_step dt landscape (Bug_steps dt landscape k b))"
  by (simp add: Bug_steps_def)

lemma Bug_steps_Suc_first:
  "Bug_steps dt landscape (Suc k) b = Bug_steps dt landscape k (snd (Bug_step dt landscape b))"
  by (simp add: Bug_steps_def funpow_Suc_right del: funpow.simps)

lemma Bug_steps_history:
  "\<exists>ys. m_history (Bug_steps dt landscape k b) = m_history b @ ys \<and> length ys = k"
proof (induction k)
  case 0
  then show ?case by simp
next
  case (Suc k)
  then obtain ys where "m_history (Bug_steps dt landscape k b) = m_history b @ ys" "length ys = k"
    by blast
  then show ?case
    by (simp add: Bug_steps_Suc Bug_step_history [of dt landscape "Bug_steps dt landscape k b"])
qed

lemma Bug_steps_history_length:
  "length (m_history (Bug_steps dt landscape k b)) = length (m_history b) + k"
  using Bug_steps_history [of dt landscape k b] by auto

lemma run_loop_all_in:
  "(\<forall>j<k. fst (Bug_step dt landscape (Bug_steps dt landscape j b)))
   \<Longrightarrow> run_loop landscape dt k b = (True, Bug_steps dt landscape k b)
     \<and> run_loop_count landscape dt k b = k"
proof (induction k arbitrary: b)
  case 0
  then show ?case by simp
next
  case (Suc k)
  obtain ok b' where st: "Bug_step dt landscape b = (ok, b')"
    by (cases "Bug_step dt landscape b")
  from Suc.prems [rule_format, of 0] st have ok: "ok" by simp
  have "\<forall>j<k. fst (Bug_step dt landscape (Bug_steps dt landscape j b'))"
    using Suc.prems st by (auto simp: Bug_steps_Suc_first dest: spec [where x = "Suc j" for j])
  from Suc.IH [OF this] st ok show ?case
    by (simp add: Bug_steps_Suc_first)
qed

lemma run_loop_first_out:
  "j < k \<Longrightarrow> (\<forall>i<j. fst (Bug_step dt landscape (Bug_steps dt landscape i b)))
   \<Longrightarrow> \<not> fst (Bug_step dt landscape (Bug_steps dt landscape j b))
   \<Longrightarrow> run_loop landscape dt k b = (False, Bug_steps dt landscape (Suc j) b)
     \<and> run_loop_count landscape dt k b = Suc j"
proof (induction k arbitrary: b j)
  case 0
  then show ?case by simp
next
  case (Suc k)
  obtain ok b' where st: "Bug_step dt landscape b = (ok, b')"
    by (cases "Bug_step dt landscape b")
  show ?case
  proof (cases j)
    case 0
    with Suc.prems st show ?thesis by (simp add: Bug_steps_Suc)
  next
    case (Suc j')
    from Suc.prems(2) [rule_format, of 0] Suc st have ok: "ok" by simp
    have a: "j' < k" using Suc.prems(1) Suc by simp
    have b: "\<forall>i<j'. fst (Bug_step dt landscape (Bug_steps dt landscape i b'))"
      using Suc.prems(2) st Suc
      by (auto simp: Bug_steps_Suc_first dest: spec [where x = "Suc i" for i])
    have c: "\<not> fst (Bug_step dt landscape (Bug_steps dt landscape j' b'))"
      using Suc.prems(3) st Suc by (simp add: Bug_steps_Suc_first)
    from Suc.IH [OF a b c] st ok Suc show ?thesis
      by (simp add: Bug_steps_Suc_first)
  qed
qed

lemma run_loop_state:
  "snd (run_loop landscape dt k b) = Bug_steps dt landscape (run_loop_count landscape dt k b) b"
proof (induction k arbitrary: b)
  case 0
  then show ?case by simp
next
  case (Suc k)
  then show ?case
    by (auto simp: Bug_steps_Suc_first split: prod.splits)
qed

lemma round_even_close: "\<bar>of_int (round_even m) - m\<bar> \<le> 1 / 2"
  unfolding round_even_def Let_def by (auto simp: abs_if) linarith+

text \<open>Rounding inside the binade \<open>[2\<^sup>k, 2\<^sup>k\<^sup>+\<^sup>1)\<close>.\<close>

lemma round_double_binade:
  assumes "2 ^ k \<le> \<bar>x\<bar>" "\<bar>x\<bar> < 2 ^ Suc k"
  shows "round_double x = of_int (round_even (x * 2 ^ 52 / 2 ^ k)) * 2 ^ k / 2 ^ 52"
proof -
  have "0 < (2::real) ^ k" by simp
  with assms(1) have x: "0 < \<bar>x\<bar>" by linarith
  then have x0: "x \<noteq> 0" by simp
  have "2 powr real_of_int (int k) \<le> \<bar>x\<bar> \<and> \<bar>x\<bar> < 2 powr real_of_int (int k + 1)"
    using assms by (simp add: powr_realpow powr_add)
  then have e: "\<lfloor>log 2 \<bar>x\<bar>\<rfloor> = int k"
    using x floor_log_eq_powr_iff [of "\<bar>x\<bar>" 2 "int k"] by simp
  have u: "2 powr (real k - 52) = 2 ^ k / 2 ^ 52"
    by (simp add: powr_diff powr_realpow)
  show ?thesis
    using x0 by (simp add: round_double_def e u Let_def)
qed

text \<open>The relative error of \<open>round_double\<close> is at most \<open>2\<^sup>-\<^sup>5\<^sup>3\<close>.\<close>

lemma round_double_error: "\<bar>round_double x - x\<bar> \<le> \<bar>x\<bar> / 2 ^ 53"
proof (cases "x = 0")
  case True
  then show ?thesis by (simp add: round_double_def)
next
  case False
  define e where "e = \<lfloor>log 2 \<bar>x\<bar>\<rfloor>"
  define u :: real where "u = 2 powr (of_int e - 52)"
  have u0: "0 < u" by (simp add: u_def)
  have "2 powr of_int e \<le> \<bar>x\<bar>"
    using False floor_log_eq_powr_iff [of "\<bar>x\<bar>" 2 e] by (simp add: e_def)
  then have ux: "u \<le> \<bar>x\<bar> / 2 ^ 52"
    by (simp add: u_def powr_diff divide_right_mono)
  have "round_double x - x = (of_int (round_even (x / u)) - x / u) * u"
    using False u0 by (simp add: round_double_def e_def u_def Let_def algebra_simps)
  then have "\<bar>round_double x - x\<bar> = \<bar>of_int (round_even (x / u)) - x / u\<bar> * u"
    using u0 by (simp add: abs_mult)
  also have "\<dots> \<le> 1 / 2 * u"
    using round_even_close [of "x / u"] u0 by (intro mult_right_mono) simp_all
  also have "\<dots> \<le> 1 / 2 * (\<bar>x\<bar> / 2 ^ 52)"
    using ux by simp
  finally show ?thesis by simp
qed

lemma round_double_50: "round_double 50 = 50"
  using round_double_binade [of 5 50] by (simp add: round_even_def)

lemma round_double_2_31: "round_double 2147483648 = 2147483648"
  using round_double_binade [of 31 2147483648] by (simp add: round_even_def)

text \<open>The doubles of the call \<^verbatim>\<open>run(land, 0.5, 0.01)\<close>: \<open>0.5\<close> is a double, the double
  nearest to \<open>0.01\<close> is \<open>5764607523034235 / 2\<^sup>5\<^sup>9\<close>, a little above \<open>0.01\<close>.  Their exact
  quotient is below 50 and rounds to 50.\<close>

lemma round_double_test_quotient:
  "round_double ((1 / 2) / (5764607523034235 / 2 ^ 59)) = 50"
  "\<lfloor>(1 / 2) / (5764607523034235 / 2 ^ 59 :: real)\<rfloor> = 49"
proof -
  show "round_double ((1 / 2) / (5764607523034235 / 2 ^ 59)) = 50"
    using round_double_binade [of 5 "(1 / 2) / (5764607523034235 / 2 ^ 59)"]
    by (simp add: round_even_def Let_def)
  show "\<lfloor>(1 / 2) / (5764607523034235 / 2 ^ 59 :: real)\<rfloor> = 49"
    by simp
qed

lemma static_cast_int_in_range:
  assumes "- (2 ^ 31) - 1 < q" "q < 2 ^ 31"
  shows "static_cast_int q = Some (trunc_real q)" "nat (trunc_real q) = nat \<lfloor>q\<rfloor>"
proof -
  have up: "\<lfloor>q\<rfloor> \<le> 2 ^ 31 - 1"
  proof -
    have "\<lfloor>q\<rfloor> < 2 ^ 31" using assms(2) by (simp add: floor_less_iff)
    then show ?thesis by simp
  qed
  have lo: "- (2 ^ 31) \<le> \<lceil>q\<rceil>"
  proof -
    have "- (2 ^ 31) - 1 < \<lceil>q\<rceil>" using assms(1) by (simp add: less_ceiling_iff)
    then show ?thesis by simp
  qed
  show "static_cast_int q = Some (trunc_real q)"
  proof (cases "0 \<le> q")
    case True
    then have "0 \<le> \<lfloor>q\<rfloor>" by simp
    with True up show ?thesis by (simp add: static_cast_int_def trunc_real_def)
  next
    case False
    then have "\<lceil>q\<rceil> \<le> 0" by (simp add: ceiling_le_iff)
    with False lo show ?thesis by (simp add: static_cast_int_def trunc_real_def)
  qed
  show "nat (trunc_real q) = nat \<lfloor>q\<rfloor>"
  proof (cases "0 \<le> q")
    case True
    then show ?thesis by (simp add: trunc_real_def)
  next
    case False
    then have "\<lceil>q\<rceil> \<le> 0" "\<lfloor>q\<rfloor> \<le> 0" by (simp_all add: ceiling_le_iff floor_le_iff)
    with False show ?thesis by (simp add: trunc_real_def)
  qed
qed

lemma Bug_run_in_range:
  assumes "dt \<noteq> 0" "- (2 ^ 31) - 1 < round_double (duration / dt)"
    "round_double (duration / dt) < 2 ^ 31"
  shows "Bug_run landscape duration dt b
         = Some (run_loop landscape dt (nat \<lfloor>round_double (duration / dt)\<rfloor>) b)"
  using assms static_cast_int_in_range [of "round_double (duration / dt)"]
  by (simp add: Bug_run_def double_div_def fdiv_def)

text \<open>
  Claim C4, as amended.  Let \<open>q\<close> be the double that the division \<^verbatim>\<open>duration / dt\<close>
  returns: the exact quotient rounded to the nearest double.  For \<open>dt > 0\<close> and a \<open>q\<close>
  that the conversion to \<^verbatim>\<open>int\<close> can hold, \<open>run\<close>
  makes \<open>\<lfloor>q\<rfloor>\<close> steps (none for a negative duration) and returns true when every step
  stays in bounds; when step \<open>j\<close> is the first to report out of bounds, it returns false
  in the state right after that step.  Each step adds one snapshot to the history.
\<close>

theorem run_executes_rounded_quotient_steps:
  fixes duration dt :: real
  defines "q \<equiv> round_double (duration / dt)"
  assumes "0 < dt" and "- (2 ^ 31) - 1 < q" and "q < 2 ^ 31"
  shows "((\<forall>j < nat \<lfloor>q\<rfloor>. fst (Bug_step dt landscape (Bug_steps dt landscape j b)))
            \<longrightarrow> Bug_run landscape duration dt b
                  = Some (True, Bug_steps dt landscape (nat \<lfloor>q\<rfloor>) b))
       \<and> (\<forall>j < nat \<lfloor>q\<rfloor>.
            (\<forall>i<j. fst (Bug_step dt landscape (Bug_steps dt landscape i b)))
              \<and> \<not> fst (Bug_step dt landscape (Bug_steps dt landscape j b))
            \<longrightarrow> Bug_run landscape duration dt b = Some (False, Bug_steps dt landscape (Suc j) b))
       \<and> (\<forall>k. length (m_history (Bug_steps dt landscape k b)) = length (m_history b) + k)"
proof -
  have run: "Bug_run landscape duration dt b = Some (run_loop landscape dt (nat \<lfloor>q\<rfloor>) b)"
    unfolding q_def using assms(2-4) unfolding q_def by (intro Bug_run_in_range) simp_all
  show ?thesis
    unfolding run
    using run_loop_all_in [of "nat \<lfloor>q\<rfloor>" dt landscape b]
      run_loop_first_out [of _ "nat \<lfloor>q\<rfloor>" dt landscape b]
      Bug_steps_history_length [of dt landscape _ b]
    by simp
qed


lemma at_rest_steps:
  assumes "m_speed b = 0" "m_sigma_xy b = 0"
  shows "m_x (Bug_steps dt landscape k b) = m_x b \<and> m_y (Bug_steps dt landscape k b) = m_y b
       \<and> m_speed (Bug_steps dt landscape k b) = 0 \<and> m_sigma_xy (Bug_steps dt landscape k b) = 0"
proof (induction k)
  case 0
  show ?case using assms by simp
next
  case (Suc k)
  have keep: "m_speed (snd (Bug_step dt landscape c)) = m_speed c"
    "m_sigma_xy (snd (Bug_step dt landscape c)) = m_sigma_xy c" for c
    using Bug_step_fields [of dt landscape c] by (simp_all add: Let_def)
  from Suc show ?case
    by (simp add: Bug_steps_Suc keep Bug_step_at_rest)
qed

lemma at_rest_in_bounds:
  assumes "m_speed b = 0" "m_sigma_xy b = 0"
  shows "fst (Bug_step dt landscape (Bug_steps dt landscape j b)) = in_bounds landscape (m_x b) (m_y b)"
  using at_rest_steps [OF assms, of dt landscape j] at_rest_steps [OF assms, of dt landscape "Suc j"]
  by (simp add: Bug_step_in_bounds Bug_steps_Suc [symmetric])

text \<open>Two agents for concrete evaluation, both standing still (zero speed, zero position
  noise): one inside the landscape at its default start, one outside it.\<close>

lemma resting_agents:
  fixes x0 :: real
  defines "p \<equiv> default_BugParams\<lparr>p_x0 := x0, p_heading0 := 0, p_speed := 0, p_sigma_xy := 0,
                                   p_n_cry := 1, p_seed := 42\<rparr>"
  defines "b \<equiv> projr (new_Bug (const_mt19937 0) 0 p)"
  shows "new_Bug (const_mt19937 0) 0 p = Inr b"
    "m_speed b = 0" "m_sigma_xy b = 0" "m_x b = x0" "m_y b = 100" "length (m_history b) = 1"
proof -
  show new: "new_Bug (const_mt19937 0) 0 p = Inr b"
    unfolding b_def by (rule new_Bug_Inr) (simp add: p_def)
  note f = new_Bug_fields [OF new]
  show "m_speed b = 0" "m_sigma_xy b = 0" "m_x b = x0" "m_y b = 100" "length (m_history b) = 1"
    using f by (simp_all add: p_def default_BugParams_def)
qed

text \<open>The call \<^verbatim>\<open>run(land, 0.5, 0.01)\<close> of the tests, on its doubles: 50 steps, where the
  floor of the exact quotient is 49.\<close>

theorem run_executes_rounded_quotient_steps_witness:
  "(0::real) < 5764607523034235 / 2 ^ 59
   \<and> - (2 ^ 31) - 1 < round_double ((1 / 2) / (5764607523034235 / 2 ^ 59))
   \<and> round_double ((1 / 2) / (5764607523034235 / 2 ^ 59)) < 2 ^ 31
   \<and> round_double ((1 / 2) / (5764607523034235 / 2 ^ 59)) = 50
   \<and> \<lfloor>(1 / 2) / (5764607523034235 / 2 ^ 59 :: real)\<rfloor> = 49
   \<and> Bug_run (new_Landscape 1000 1000 50 0 (pi / 3)) (1 / 2) (5764607523034235 / 2 ^ 59)
        (projr (new_Bug (const_mt19937 0) 0
           (default_BugParams\<lparr>p_x0 := 500, p_heading0 := 0, p_speed := 0, p_sigma_xy := 0,
                              p_n_cry := 1, p_seed := 42\<rparr>)))
      = Some (True, Bug_steps (5764607523034235 / 2 ^ 59) (new_Landscape 1000 1000 50 0 (pi / 3)) 50
        (projr (new_Bug (const_mt19937 0) 0
           (default_BugParams\<lparr>p_x0 := 500, p_heading0 := 0, p_speed := 0, p_sigma_xy := 0,
                              p_n_cry := 1, p_seed := 42\<rparr>))))
   \<and> length (m_history (Bug_steps (5764607523034235 / 2 ^ 59) (new_Landscape 1000 1000 50 0 (pi / 3)) 50
        (projr (new_Bug (const_mt19937 0) 0
           (default_BugParams\<lparr>p_x0 := 500, p_heading0 := 0, p_speed := 0, p_sigma_xy := 0,
                              p_n_cry := 1, p_seed := 42\<rparr>))))) = 51
   \<and> Bug_run (new_Landscape 1000 1000 50 0 (pi / 3)) (1 / 2) (5764607523034235 / 2 ^ 59)
        (projr (new_Bug (const_mt19937 0) 0
           (default_BugParams\<lparr>p_x0 := - 10, p_heading0 := 0, p_speed := 0, p_sigma_xy := 0,
                              p_n_cry := 1, p_seed := 42\<rparr>)))
      = Some (False, Bug_steps (5764607523034235 / 2 ^ 59) (new_Landscape 1000 1000 50 0 (pi / 3)) (Suc 0)
        (projr (new_Bug (const_mt19937 0) 0
           (default_BugParams\<lparr>p_x0 := - 10, p_heading0 := 0, p_speed := 0, p_sigma_xy := 0,
                              p_n_cry := 1, p_seed := 42\<rparr>))))"
proof -
  define L where "L = new_Landscape 1000 1000 50 0 (pi / 3)"
  define d :: real where "d = 5764607523034235 / 2 ^ 59"
  define b_in where "b_in = projr (new_Bug (const_mt19937 0) 0
           (default_BugParams\<lparr>p_x0 := 500, p_heading0 := 0, p_speed := 0, p_sigma_xy := 0,
                              p_n_cry := 1, p_seed := 42\<rparr>))"
  define b_out where "b_out = projr (new_Bug (const_mt19937 0) 0
           (default_BugParams\<lparr>p_x0 := - 10, p_heading0 := 0, p_speed := 0, p_sigma_xy := 0,
                              p_n_cry := 1, p_seed := 42\<rparr>))"
  note fi = resting_agents [of 500, folded b_in_def]
  note fo = resting_agents [of "- 10", folded b_out_def]
  have q: "round_double ((1 / 2) / d) = 50" and fl: "\<lfloor>(1 / 2) / d\<rfloor> = 49"
    unfolding d_def by (rule round_double_test_quotient)+
  have r: "0 < d" "- (2 ^ 31) - 1 < round_double ((1 / 2) / d)" "round_double ((1 / 2) / d) < 2 ^ 31"
    unfolding q by (simp_all add: d_def)
  have inb: "fst (Bug_step d L (Bug_steps d L j b_in))" for j
    using fi by (simp add: at_rest_in_bounds in_bounds_def L_def new_Landscape_def)
  have outb: "\<not> fst (Bug_step d L (Bug_steps d L j b_out))" for j
    using fo by (simp add: at_rest_in_bounds in_bounds_def L_def new_Landscape_def)
  have 1: "Bug_run L (1 / 2) d b_in = Some (True, Bug_steps d L 50 b_in)"
    and 2: "length (m_history (Bug_steps d L 50 b_in)) = 51"
    using run_executes_rounded_quotient_steps [OF r, of L b_in, unfolded q] inb fi(6) by simp_all
  have 3: "Bug_run L (1 / 2) d b_out = Some (False, Bug_steps d L (Suc 0) b_out)"
    using run_executes_rounded_quotient_steps [OF r, of L b_out, unfolded q] outb [of 0] by simp
  from r q fl 1 2 3 show ?thesis
    unfolding L_def b_in_def b_out_def d_def by blast
qed

text \<open>
  Claim C4 as stated fails when the quotient does not fit an \<^verbatim>\<open>int\<close>.  The agent at
  rest inside the landscape stays in bounds at every step, and \<open>\<lfloor>2\<^sup>3\<^sup>1 / 1\<rfloor> = 2\<^sup>3\<^sup>1\<close>
  (the quotient is a double), but the conversion \<^verbatim>\<open>static_cast<int>(2147483648.0)\<close> is
  undefined: \<open>run\<close> is not bound to make \<open>2\<^sup>3\<^sup>1\<close> steps.
\<close>

theorem run_step_count_overflow_counterexample:
  "Bug_run (new_Landscape 1000 1000 50 0 (pi / 3)) 2147483648 1
     (projr (new_Bug (const_mt19937 0) 0
        (default_BugParams\<lparr>p_x0 := 500, p_heading0 := 0, p_speed := 0, p_sigma_xy := 0,
                           p_n_cry := 1, p_seed := 42\<rparr>))) = None"
  by (simp add: Bug_run_def double_div_def fdiv_def round_double_2_31 static_cast_int_def
      trunc_real_def)

lemma do_call_history:
  assumes "do_call c b = Some b'"
  shows "\<exists>ys. m_history b' = m_history b @ ys \<and> length ys = steps_of_call c b"
proof (cases c)
  case (Step dt landscape)
  with assms show ?thesis
    using Bug_step_history [of dt landscape b] by auto
next
  case (Run landscape duration dt)
  with assms obtain n_steps where n: "double_div duration dt \<bind> static_cast_int = Some n_steps"
    and b': "b' = snd (run_loop landscape dt (nat n_steps) b)"
    by (auto simp: Bug_run_def split: bind_splits)
  have "steps_of_call c b = run_loop_count landscape dt (nat n_steps) b"
    using Run n by simp
  then show ?thesis
    using Bug_steps_history [of dt landscape "run_loop_count landscape dt (nat n_steps) b" b]
    by (simp add: b' run_loop_state)
qed

lemma do_calls_history:
  "do_calls cs b = Some (n, b') \<Longrightarrow> \<exists>ys. m_history b' = m_history b @ ys \<and> length ys = n"
proof (induction cs arbitrary: b n)
  case Nil
  then show ?case by simp
next
  case (Cons c cs)
  then obtain b1 n1 where c: "do_call c b = Some b1" and cs: "do_calls cs b1 = Some (n1, b')"
    and n: "n = steps_of_call c b + n1"
    by (auto split: bind_splits)
  from do_call_history [OF c] obtain ys where ys: "m_history b1 = m_history b @ ys"
    "length ys = steps_of_call c b" by blast
  from Cons.IH [OF cs] obtain zs where zs: "m_history b' = m_history b1 @ zs" "length zs = n1"
    by blast
  have "m_history b' = m_history b @ (ys @ zs) \<and> length (ys @ zs) = n"
    using ys zs n by simp
  then show ?case by blast
qed

text \<open>
  Claim C5.  The constructor records the initial condition as the only history entry.
  After any sequence of \<open>step\<close>/\<open>run\<close> calls the history has one entry more than the
  number of steps taken; a further sequence of calls leaves every entry recorded so far
  in place and unchanged, entry 0 included.
\<close>

theorem history_append_only:
  assumes "new_Bug mt19937 random_device p = Inr b0"
    and "do_calls cs1 b0 = Some (n1, b1)"
    and "do_calls cs2 b1 = Some (n2, b2)"
  shows "m_history b0 = [\<lparr> bs_x = p_x0 p, bs_y = p_y0 p, bs_heading = m_heading b0,
                            bs_estimated_heading = RingAttractor_heading (m_attractor b0),
                            bs_bump_amplitude = bump_amplitude (m_attractor b0) \<rparr>]
       \<and> length (m_history b1) = 1 + n1
       \<and> length (m_history b2) = 1 + (n1 + n2)
       \<and> take (length (m_history b1)) (m_history b2) = m_history b1
       \<and> m_history b2 ! 0 = m_history b0 ! 0"
proof -
  note h0 = new_Bug_fields(8) [OF assms(1)]
  from do_calls_history [OF assms(2)] obtain ys where
    ys: "m_history b1 = m_history b0 @ ys" "length ys = n1" by blast
  from do_calls_history [OF assms(3)] obtain zs where
    zs: "m_history b2 = m_history b1 @ zs" "length zs = n2" by blast
  have len0: "length (m_history b0) = 1" by (simp add: h0)
  have "m_history b2 ! 0 = m_history b0 ! 0"
    using len0 by (simp add: zs ys nth_append)
  with h0 ys zs len0 show ?thesis by simp
qed


text \<open>The call sequence of the repository's history test: one \<open>step\<close>, then a \<open>run\<close> of
  0.5 s at 0.01 s per step; the history grows from 1 to 2 to 52 entries.\<close>

theorem history_append_only_witness:
  "new_Bug (const_mt19937 0) 0
     (default_BugParams\<lparr>p_x0 := 500, p_heading0 := 0, p_speed := 0, p_sigma_xy := 0,
                        p_n_cry := 1, p_seed := 42\<rparr>)
    = Inr (projr (new_Bug (const_mt19937 0) 0
        (default_BugParams\<lparr>p_x0 := 500, p_heading0 := 0, p_speed := 0, p_sigma_xy := 0,
                           p_n_cry := 1, p_seed := 42\<rparr>)))
   \<and> do_calls [Step 0.01 (new_Landscape 1000 1000 50 0 (pi / 3))]
        (projr (new_Bug (const_mt19937 0) 0
          (default_BugParams\<lparr>p_x0 := 500, p_heading0 := 0, p_speed := 0, p_sigma_xy := 0,
                             p_n_cry := 1, p_seed := 42\<rparr>)))
      = Some (1, Bug_steps 0.01 (new_Landscape 1000 1000 50 0 (pi / 3)) 1
          (projr (new_Bug (const_mt19937 0) 0
            (default_BugParams\<lparr>p_x0 := 500, p_heading0 := 0, p_speed := 0, p_sigma_xy := 0,
                               p_n_cry := 1, p_seed := 42\<rparr>))))
   \<and> do_calls [Run (new_Landscape 1000 1000 50 0 (pi / 3)) 0.5 0.01]
        (Bug_steps 0.01 (new_Landscape 1000 1000 50 0 (pi / 3)) 1
          (projr (new_Bug (const_mt19937 0) 0
            (default_BugParams\<lparr>p_x0 := 500, p_heading0 := 0, p_speed := 0, p_sigma_xy := 0,
                               p_n_cry := 1, p_seed := 42\<rparr>))))
      = Some (50, Bug_steps 0.01 (new_Landscape 1000 1000 50 0 (pi / 3)) 51
          (projr (new_Bug (const_mt19937 0) 0
            (default_BugParams\<lparr>p_x0 := 500, p_heading0 := 0, p_speed := 0, p_sigma_xy := 0,
                               p_n_cry := 1, p_seed := 42\<rparr>))))
   \<and> length (m_history (Bug_steps 0.01 (new_Landscape 1000 1000 50 0 (pi / 3)) 1
          (projr (new_Bug (const_mt19937 0) 0
            (default_BugParams\<lparr>p_x0 := 500, p_heading0 := 0, p_speed := 0, p_sigma_xy := 0,
                               p_n_cry := 1, p_seed := 42\<rparr>))))) = 2
   \<and> length (m_history (Bug_steps 0.01 (new_Landscape 1000 1000 50 0 (pi / 3)) 51
          (projr (new_Bug (const_mt19937 0) 0
            (default_BugParams\<lparr>p_x0 := 500, p_heading0 := 0, p_speed := 0, p_sigma_xy := 0,
                               p_n_cry := 1, p_seed := 42\<rparr>))))) = 52"
proof -
  define L where "L = new_Landscape 1000 1000 50 0 (pi / 3)"
  define p where "p = default_BugParams\<lparr>p_x0 := 500, p_heading0 := 0, p_speed := 0,
                        p_sigma_xy := 0, p_n_cry := 1, p_seed := 42\<rparr>"
  define b0 where "b0 = projr (new_Bug (const_mt19937 0) 0 p)"
  define b1 where "b1 = Bug_steps 0.01 L 1 b0"
  define b2 where "b2 = Bug_steps 0.01 L 51 b0"
  note f = resting_agents [of 500, folded p_def, folded b0_def]
  have b21: "b2 = Bug_steps 0.01 L 50 b1"
    by (simp add: b1_def b2_def Bug_steps_def funpow_add [of 50 1, simplified, unfolded o_def])
  have rest1: "m_speed b1 = 0" "m_sigma_xy b1 = 0" "m_x b1 = 500" "m_y b1 = 100"
    using at_rest_steps [OF f(2,3), of "0.01" L 1] f by (simp_all add: b1_def)
  have inb: "fst (Bug_step 0.01 L (Bug_steps 0.01 L j b1))" for j
    using rest1 by (simp add: at_rest_in_bounds in_bounds_def L_def new_Landscape_def)
  have c1: "do_calls [Step 0.01 L] b0 = Some (1, b1)"
    by (simp add: b1_def Bug_steps_def)
  have loop: "run_loop L 0.01 50 b1 = (True, b2)" "run_loop_count L 0.01 50 b1 = 50"
    using run_loop_all_in [of 50 "0.01" L b1] inb by (simp_all add: b21)
  have run: "Bug_run L 0.5 0.01 b1 = Some (True, b2)"
    using loop(1)
    by (simp add: Bug_run_def double_div_def fdiv_def round_double_50 static_cast_int_def
        trunc_real_def)
  have cnt: "steps_of_call (Run L 0.5 0.01) b1 = 50"
    using loop(2)
    by (simp add: double_div_def fdiv_def round_double_50 static_cast_int_def trunc_real_def)
  have c2: "do_calls [Run L 0.5 0.01] b1 = Some (50, b2)"
    using run cnt by (simp del: steps_of_call.simps)
  from history_append_only [OF f(1) c1 c2]
  have "length (m_history b1) = 2" "length (m_history b2) = 52" by simp_all
  with f(1) c1 c2 show ?thesis
    unfolding L_def p_def b0_def b1_def b2_def by blast
qed

section \<open>Draw order: proofs\<close>

lemma advance_0 [simp]: "advance 0 g = g"
  by (simp add: advance_def)

lemma advance_Suc: "advance (Suc k) g = normal_next (advance k g)"
  by (simp add: advance_def)

lemma advance_add: "advance j (advance k g) = advance (k + j) g"
  by (simp add: advance_def funpow_add add.commute)

lemma nth_normal_advance: "nth_normal (advance k g) i = nth_normal g (k + i)"
  by (simp add: nth_normal_def advance_add)

lemma read_loop_drawn:
  "for_loop k (read_step s heading) (S0, g) =
     (for_loop k
        (\<lambda>k acc. acc[m_assignments s ! k := acc ! (m_assignments s ! k)
             + (singlet_yield (heading - m_phi s ! k) (m_contrast s) (m_mean_yield s)
                + (if m_sigma_sensor s > 0 then nth_normal g k * m_sigma_sensor s else 0))]) S0,
      advance (if m_sigma_sensor s > 0 then k else 0) g)"
proof (induction k)
  case 0
  then show ?case by (simp add: for_loop_0)
next
  case (Suc k)
  show ?case
    unfolding for_loop_Suc Suc
    by (simp add: read_step_def Let_def normal_distribution_def nth_normal_def advance_Suc)
qed

lemma read_drawn:
  "read s heading g =
     (read_given_noise s heading (\<lambda>k. if m_sigma_sensor s > 0 then nth_normal g k * m_sigma_sensor s else 0),
      advance (if m_sigma_sensor s > 0 then nat (m_n_cry s) else 0) g)"
  by (simp add: read_def read_given_noise_def read_loop_drawn Let_def)

lemma noise_loop_drawn:
  assumes "k \<le> n"
  shows "for_loop k (\<lambda>i st.
             (case st of (noise, g1) \<Rightarrow>
                (case normal_distribution 0 sigma g1 of (e, g2) \<Rightarrow> (noise[i := e], g2))))
           (replicate n 0, g)
         = (map (\<lambda>i. nth_normal g i * sigma) [0..<k] @ replicate (n - k) 0, advance k g)"
  using assms
proof (induction k)
  case 0
  then show ?case by (simp add: for_loop_0)
next
  case (Suc k)
  then have k: "k < n" by simp
  from k obtain m where m: "n - k = Suc m" "n - Suc k = m"
    by (cases "n - k") auto
  have "(map (\<lambda>i. nth_normal g i * sigma) [0..<k] @ replicate (n - k) 0)[k := e]
        = map (\<lambda>i. nth_normal g i * sigma) [0..<k] @ e # replicate (n - Suc k) 0" for e
    by (simp add: list_update_append m)
  then show ?case
    using Suc k
    by (simp add: for_loop_Suc normal_distribution_def nth_normal_def advance_Suc)
qed

lemma neural_noise_drawn:
  "neural_noise ra g =
     (map (\<lambda>i. if m_noise_sigma ra > 0 then nth_normal g i * m_noise_sigma ra else 0) [0..<N],
      advance (if m_noise_sigma ra > 0 then N else 0) g)"
  using noise_loop_drawn [of N N "m_noise_sigma ra" g]
  by (simp add: neural_noise_def map_replicate_const)

lemma RingAttractor_step_drawn:
  "RingAttractor_step ra dt compass_input angular_velocity g =
     (RingAttractor_step_given_noise ra dt compass_input angular_velocity
        (map (\<lambda>i. if m_noise_sigma ra > 0 then nth_normal g i * m_noise_sigma ra else 0) [0..<N]),
      advance (if m_noise_sigma ra > 0 then N else 0) g)"
  by (simp add: RingAttractor_step_def RingAttractor_step_given_noise_def neural_noise_drawn Let_def)

lemma Bug_step_eq_drawn: "Bug_step dt landscape b = Bug_step_drawn dt landscape b"
  by (simp add: Bug_step_def Bug_step_drawn_def read_drawn RingAttractor_step_drawn
      normal_distribution_def Let_def nth_normal_def advance_add advance_Suc eval_nat_numeral)


lemma new_Bug_seeded:
  "p_seed p \<noteq> 0 \<Longrightarrow> new_Bug mt19937 random_device1 p = new_Bug mt19937 random_device2 p"
  by (simp add: new_Bug_def)

text \<open>
  Claim C2.  With a nonzero seed the constructed agent does not depend on the system's
  entropy source, so two agents built from the same parameters are equal and any
  sequence of calls on the same landscapes gives them the same trajectory.  One step
  consumes the generator's normal variates in the fixed order compass molecules (if
  the sensor noise is positive), estimator units (if the estimator noise is positive),
  heading, \<open>x\<close>, \<open>y\<close>: the step computed by the code is the step computed from the
  variates taken by position in that order.
\<close>

theorem fixed_seed_reproducible_draw_order:
  "(p_seed p \<noteq> 0 \<longrightarrow> new_Bug mt19937 random_device1 p = new_Bug mt19937 random_device2 p)
   \<and> (p_seed p \<noteq> 0 \<and> new_Bug mt19937 random_device1 p = Inr b1
        \<and> new_Bug mt19937 random_device2 p = Inr b2
      \<longrightarrow> map_option (\<lambda>r. m_history (snd r)) (do_calls cs b1)
          = map_option (\<lambda>r. m_history (snd r)) (do_calls cs b2))
   \<and> Bug_step dt landscape b = Bug_step_drawn dt landscape b"
proof -
  have "b1 = b2" if "p_seed p \<noteq> 0" "new_Bug mt19937 random_device1 p = Inr b1"
    "new_Bug mt19937 random_device2 p = Inr b2"
    using that new_Bug_seeded [of p mt19937 random_device1 random_device2] by simp
  then show ?thesis
    using new_Bug_seeded [of p mt19937 random_device1 random_device2]
      Bug_step_eq_drawn [of dt landscape b]
    by blast
qed

theorem fixed_seed_reproducible_witness:
  "p_seed (default_BugParams\<lparr>p_n_cry := 1, p_seed := 42\<rparr>) \<noteq> 0
   \<and> new_Bug ramp_mt19937 0 (default_BugParams\<lparr>p_n_cry := 1, p_seed := 42\<rparr>)
       = new_Bug ramp_mt19937 1 (default_BugParams\<lparr>p_n_cry := 1, p_seed := 42\<rparr>)
   \<and> new_Bug ramp_mt19937 0 (default_BugParams\<lparr>p_n_cry := 1, p_seed := 42\<rparr>)
       = Inr (projr (new_Bug ramp_mt19937 0 (default_BugParams\<lparr>p_n_cry := 1, p_seed := 42\<rparr>)))
   \<and> new_Bug ramp_mt19937 1 (default_BugParams\<lparr>p_n_cry := 1, p_seed := 42\<rparr>)
       = Inr (projr (new_Bug ramp_mt19937 1 (default_BugParams\<lparr>p_n_cry := 1, p_seed := 42\<rparr>)))
   \<and> map_option (\<lambda>r. m_history (snd r))
        (do_calls [Step 0.01 (new_Landscape 1000 1000 50 0 (pi / 3))]
           (projr (new_Bug ramp_mt19937 0 (default_BugParams\<lparr>p_n_cry := 1, p_seed := 42\<rparr>))))
     = map_option (\<lambda>r. m_history (snd r))
        (do_calls [Step 0.01 (new_Landscape 1000 1000 50 0 (pi / 3))]
           (projr (new_Bug ramp_mt19937 1 (default_BugParams\<lparr>p_n_cry := 1, p_seed := 42\<rparr>))))"
proof -
  define p where "p = default_BugParams\<lparr>p_n_cry := 1, p_seed := 42\<rparr>"
  have seed: "p_seed p \<noteq> 0" by (simp add: p_def)
  have n: "0 \<le> p_n_cry p" by (simp add: p_def)
  note i0 = new_Bug_Inr [OF n, of ramp_mt19937 0]
  note i1 = new_Bug_Inr [OF n, of ramp_mt19937 1]
  note t = fixed_seed_reproducible_draw_order
    [of p ramp_mt19937 0 1 "projr (new_Bug ramp_mt19937 0 p)" "projr (new_Bug ramp_mt19937 1 p)"
        "[Step 0.01 (new_Landscape 1000 1000 50 0 (pi / 3))]"]
  from t seed i0 i1 show ?thesis
    unfolding p_def by blast
qed

text \<open>With seed 0 the generator is seeded from the entropy source, and two
  constructions with different entropy give different agents.\<close>

lemma seed_zero_uses_entropy:
  "new_Bug ramp_mt19937 0 (default_BugParams\<lparr>p_n_cry := 1\<rparr>)
     \<noteq> new_Bug ramp_mt19937 1 (default_BugParams\<lparr>p_n_cry := 1\<rparr>)"
proof
  assume eq: "new_Bug ramp_mt19937 0 (default_BugParams\<lparr>p_n_cry := 1\<rparr>)
     = new_Bug ramp_mt19937 1 (default_BugParams\<lparr>p_n_cry := 1\<rparr>)"
  have rng: "normal_out (m_rng (projr (new_Bug ramp_mt19937 e (default_BugParams\<lparr>p_n_cry := 1\<rparr>))))
          = real (unat e) + 2" for e
    by (simp add: new_Bug_def default_BugParams_def new_CompassSensor_def Let_def
        uniform_real_distribution_def new_RingAttractor_def init_bump_def
        uniform_int_distribution_def RingAttractor_reset_def ramp_mt19937_def
        split: prod.splits)
  from rng [of 0] rng [of 1] eq show False by simp
qed

section \<open>Ring attractor: closed forms of the loops\<close>

lemma row_loop:
  assumes "i < length W" "length (W ! i) = 8"
  shows "for_loop 8 (\<lambda>j W. W[i := (W ! i)[j := f j]]) W = W[i := [f 0, f 1, f 2, f 3, f 4, f 5, f 6, f 7]]"
proof -
  obtain a0 a1 a2 a3 a4 a5 a6 a7 where r: "W ! i = [a0, a1, a2, a3, a4, a5, a6, a7]"
    using assms(2) by (auto simp: length_Suc_conv eval_nat_numeral)
  show ?thesis using assms(1)
    by (simp add: for_loop_def eval_nat_numeral r)
qed

lemma rows_loop:
  assumes "length W = 8" "\<forall>i<8. length (W ! i) = 8"
  shows "for_loop 8 (\<lambda>i W. for_loop 8 (\<lambda>j W. W[i := (W ! i)[j := f i j]]) W) W
         = map (\<lambda>i. map (f i) [0..<8]) [0..<8]"
proof -
  have step: "k \<le> 8 \<Longrightarrow> length (for_loop k (\<lambda>i W. for_loop 8 (\<lambda>j W. W[i := (W ! i)[j := f i j]]) W) W) = 8
     \<and> (\<forall>i<8. for_loop k (\<lambda>i W. for_loop 8 (\<lambda>j W. W[i := (W ! i)[j := f i j]]) W) W ! i
           = (if i < k then map (f i) [0..<8] else W ! i))" for k
  proof (induction k)
    case 0 then show ?case using assms by (simp add: for_loop_0)
  next
    case (Suc k)
    define W' where "W' = for_loop k (\<lambda>i W. for_loop 8 (\<lambda>j W. W[i := (W ! i)[j := f i j]]) W) W"
    from Suc have len: "length W' = 8"
      and old: "\<forall>i<8. W' ! i = (if i < k then map (f i) [0..<8] else W ! i)"
      by (simp_all add: W'_def)
    have k: "k < 8" using Suc.prems by simp
    have wk: "length (W' ! k) = 8" using old k assms(2) by simp
    have "for_loop 8 (\<lambda>j W. W[k := (W ! k)[j := f k j]]) W' = W'[k := [f k 0, f k 1, f k 2, f k 3, f k 4, f k 5, f k 6, f k 7]]"
      by (rule row_loop) (use k len wk in simp_all)
    moreover have "map (f k) [0..<8] = [f k 0, f k 1, f k 2, f k 3, f k 4, f k 5, f k 6, f k 7]"
      by (simp add: eval_nat_numeral upt_rec)
    ultimately show ?case
      using len old k by (simp add: for_loop_Suc W'_def [symmetric] nth_list_update)
  qed
  show ?thesis
    using step [of 8] by (intro nth_equalityI) simp_all
qed

lemma ring_trig2:
  "cos (3 * pi / 4) = - (sqrt 2 / 2)" "cos (5 * pi / 4) = - (sqrt 2 / 2)" "cos (7 * pi / 4) = sqrt 2 / 2"
  "sin (3 * pi / 4) = sqrt 2 / 2" "sin (5 * pi / 4) = - (sqrt 2 / 2)" "sin (7 * pi / 4) = - (sqrt 2 / 2)"
proof -
  have e: "3 * pi / 4 = pi * 3 / 4" "5 * pi / 4 = pi * 5 / 4" "7 * pi / 4 = pi * 7 / 4"
    by simp_all
  show "cos (3 * pi / 4) = - (sqrt 2 / 2)" unfolding e by (rule cos_135)
  show "cos (5 * pi / 4) = - (sqrt 2 / 2)" unfolding e by (rule cos_225)
  show "cos (7 * pi / 4) = sqrt 2 / 2" unfolding e by (rule cos_315)
  show "sin (3 * pi / 4) = sqrt 2 / 2" unfolding e by (rule sin_135)
  show "sin (5 * pi / 4) = - (sqrt 2 / 2)" unfolding e by (rule sin_225)
  show "sin (7 * pi / 4) = - (sqrt 2 / 2)" unfolding e by (rule sin_315)
qed

lemma ring_W_entries:
  "map (\<lambda>i. map (\<lambda>j. 3 / 2 * max 0 (cos (ring_theta ! i - ring_theta ! j))) [0..<8]) [0..<8] = ring_W"
  by (simp add: upt_rec ring_theta_def ring_W_def Let_def ring_trig ring_trig2)

lemma init_connectivity_default:
  assumes "m_w_exc ra = 3 / 2" "m_theta ra = replicate N 0" "m_W_exc ra = replicate N (replicate N 0)"
  shows "m_theta (init_connectivity ra) = ring_theta"
    and "m_W_exc (init_connectivity ra) = ring_W"
proof -
  have th: "for_loop N (\<lambda>i th. th[i := 2 * pi * real i / real N]) (m_theta ra) = ring_theta"
    unfolding assms(2) ring_angles ring_theta_def ..
  show "m_theta (init_connectivity ra) = ring_theta"
    unfolding init_connectivity_def Let_def th by simp
  have "m_W_exc (init_connectivity ra)
        = for_loop N (\<lambda>i W. for_loop N (\<lambda>j W.
             W[i := (W ! i)[j := 3 / 2 * max 0 (cos (ring_theta ! i - ring_theta ! j))]]) W)
            (replicate N (replicate N 0))"
    unfolding init_connectivity_def Let_def th assms(1,3) by simp
  also have "\<dots> = map (\<lambda>i. map (\<lambda>j. 3 / 2 * max 0 (cos (ring_theta ! i - ring_theta ! j))) [0..<8]) [0..<8]"
    unfolding N_def by (rule rows_loop) simp_all
  finally show "m_W_exc (init_connectivity ra) = ring_W"
    unfolding ring_W_entries .
qed

lemma step_explicit:
  assumes "default_weights ra" and r: "m_r ra = [r0, r1, r2, r3, r4, r5, r6, r7]"
  defines "inh \<equiv> 9 / 2 * ((r0 + r1 + r2 + r3 + r4 + r5 + r6 + r7) / 8)"
  shows "RingAttractor_step ra dt None 0 g =
         (ra\<lparr>m_r :=
            [relax (m_tau ra) dt r0 (3 / 2 * r0 + 3 * sqrt 2 / 4 * (r7 + r1) - inh),
             relax (m_tau ra) dt r1 (3 / 2 * r1 + 3 * sqrt 2 / 4 * (r0 + r2) - inh),
             relax (m_tau ra) dt r2 (3 / 2 * r2 + 3 * sqrt 2 / 4 * (r1 + r3) - inh),
             relax (m_tau ra) dt r3 (3 / 2 * r3 + 3 * sqrt 2 / 4 * (r2 + r4) - inh),
             relax (m_tau ra) dt r4 (3 / 2 * r4 + 3 * sqrt 2 / 4 * (r3 + r5) - inh),
             relax (m_tau ra) dt r5 (3 / 2 * r5 + 3 * sqrt 2 / 4 * (r4 + r6) - inh),
             relax (m_tau ra) dt r6 (3 / 2 * r6 + 3 * sqrt 2 / 4 * (r5 + r7) - inh),
             relax (m_tau ra) dt r7 (3 / 2 * r7 + 3 * sqrt 2 / 4 * (r6 + r0) - inh)]\<rparr>, g)"
proof -
  from assms(1) have f: "m_theta ra = ring_theta" "m_W_exc ra = ring_W" "m_w_inh ra = 9 / 2"
      "m_threshold ra = 0" "m_r_max ra = 1" "m_noise_sigma ra = 0"
    by (simp_all add: default_weights_def)
  have exc: "excitation ra =
     [3 / 2 * r0 + 3 * sqrt 2 / 4 * (r7 + r1),
      3 / 2 * r1 + 3 * sqrt 2 / 4 * (r0 + r2),
      3 / 2 * r2 + 3 * sqrt 2 / 4 * (r1 + r3),
      3 / 2 * r3 + 3 * sqrt 2 / 4 * (r2 + r4),
      3 / 2 * r4 + 3 * sqrt 2 / 4 * (r3 + r5),
      3 / 2 * r5 + 3 * sqrt 2 / 4 * (r4 + r6),
      3 / 2 * r6 + 3 * sqrt 2 / 4 * (r5 + r7),
      3 / 2 * r7 + 3 * sqrt 2 / 4 * (r6 + r0)]"
    by (simp add: excitation_def f r ring_W_def Let_def N_def for_loop_def
        eval_nat_numeral algebra_simps)
  have inh: "m_w_inh ra * (for_loop N (\<lambda>i m. m + m_r ra ! i) 0 / real N) = inh"
    by (simp add: f r N_def for_loop_def eval_nat_numeral inh_def)
  have noise: "neural_noise ra g = (replicate N 0, g)"
    by (simp add: neural_noise_def f)
  show ?thesis
    unfolding RingAttractor_step_def Let_def exc inh noise
    by (simp add: magnetic_input_def omega_input_def f r N_def for_loop_def
        eval_nat_numeral rate_step_def Let_def relax_def)
qed

lemma wrap_pi_shift: "\<exists>n::int. wrap_pi d = d + 2 * pi * real_of_int n"
proof -
  define q where "q = trunc_real ((d + pi) / (2 * pi))"
  show ?thesis
  proof (cases "fmod (d + pi) (2 * pi) < 0")
    case True
    then have "wrap_pi d = d + 2 * pi * real_of_int (1 - q)"
      by (simp add: wrap_pi_def Let_def fmod_def q_def algebra_simps)
    then show ?thesis ..
  next
    case False
    then have "wrap_pi d = d + 2 * pi * real_of_int (- q)"
      by (simp add: wrap_pi_def Let_def fmod_def q_def algebra_simps)
    then show ?thesis ..
  qed
qed

lemma cos_wrap_pi: "cos (wrap_pi d) = cos d"
  using wrap_pi_shift [of d] sin_cos_eq_iff [of "wrap_pi d" d] by blast

lemma reset_explicit:
  assumes "m_theta ra = ring_theta" "0 \<le> h"
  shows "RingAttractor_reset ra h g =
    (ra\<lparr>m_r :=
       [max 0 (cos h / 2),
        max 0 ((sqrt 2 / 2 * cos h + sqrt 2 / 2 * sin h) / 2),
        max 0 (sin h / 2),
        max 0 ((sqrt 2 / 2 * sin h - sqrt 2 / 2 * cos h) / 2),
        max 0 (- cos h / 2),
        max 0 ((- (sqrt 2 / 2 * cos h) - sqrt 2 / 2 * sin h) / 2),
        max 0 (- sin h / 2),
        max 0 ((sqrt 2 / 2 * cos h - sqrt 2 / 2 * sin h) / 2)]\<rparr>, g)"
  using assms
  by (simp add: RingAttractor_reset_def Let_def N_def for_loop_def eval_nat_numeral ring_theta_def
      cos_wrap_pi cos_diff ring_trig ring_trig2)

lemma exp_Complex0: "exp (Complex 0 t) = Complex (cos t) (sin t)"
  by (rule complex_eqI) (simp_all add: Re_exp Im_exp)

lemma heading_explicit:
  assumes "m_theta ra = ring_theta" "m_r ra = [r0, r1, r2, r3, r4, r5, r6, r7]"
  shows "RingAttractor_heading ra =
     decode (r0 - r4 + sqrt 2 / 2 * (r1 + r7 - r3 - r5))
            (r2 - r6 + sqrt 2 / 2 * (r1 + r3 - r5 - r7))"
proof -
  have z: "for_loop N (\<lambda>i z. z + complex_of_real (m_r ra ! i) * exp (Complex 0 (m_theta ra ! i))) 0
        = Complex (r0 - r4 + sqrt 2 / 2 * (r1 + r7 - r3 - r5))
                  (r2 - r6 + sqrt 2 / 2 * (r1 + r3 - r5 - r7))"
    by (rule complex_eqI)
      (simp_all add: assms N_def for_loop_def eval_nat_numeral ring_theta_def exp_Complex0
        ring_trig ring_trig2 field_simps)
  show ?thesis
    unfolding RingAttractor_heading_def z
    by (simp add: decode_def arg_complex_def cmod_def Let_def)
qed

section \<open>Ring attractor: decoding a population vector given in polar form\<close>

lemma atan2_polar:
  assumes rho: "0 < rho" and lo: "- pi < phi" and hi: "phi \<le> pi"
  shows "atan2 (rho * sin phi) (rho * cos phi) = phi"
proof -
  have q: "rho * sin phi / (rho * cos phi) = tan phi"
    using rho by (simp add: tan_def)
  consider (a) "- (pi / 2) < phi" "phi < pi / 2" | (b) "phi = pi / 2" | (c) "phi = - (pi / 2)"
    | (d) "pi / 2 < phi" | (e) "phi < - (pi / 2)"
    by linarith
  then show ?thesis
  proof cases
    case a
    then have "0 < cos phi" by (rule cos_gt_zero_pi)
    then have "0 < rho * cos phi" using rho by simp
    then show ?thesis
      unfolding atan2_def q using a by (simp add: arctan_tan)
  next
    case b
    show ?thesis unfolding b using rho by (simp add: atan2_def)
  next
    case c
    show ?thesis unfolding c using rho by (simp add: atan2_def)
  next
    case d
    have "0 < cos (phi - pi)"
      by (rule cos_gt_zero_pi) (use d hi in simp_all)
    then have c: "rho * cos phi < 0"
      using rho by (simp add: cos_diff mult_pos_neg)
    have "0 \<le> sin phi"
      by (rule sin_ge_zero) (use d hi pi_gt_zero in linarith)+
    then have s: "0 \<le> rho * sin phi" using rho by simp
    have "tan phi = tan (phi - pi)"
      using tan_periodic_pi [of "phi - pi"] by simp
    then have "arctan (tan phi) = phi - pi"
      using d hi by (simp add: arctan_tan)
    then show ?thesis
      unfolding atan2_def q using c s by simp
  next
    case e
    have "0 < cos (phi + pi)"
      by (rule cos_gt_zero_pi) (use e lo in simp_all)
    then have c: "rho * cos phi < 0"
      using rho by (simp add: mult_pos_neg)
    have "0 < sin (- phi)"
      by (rule sin_gt_zero) (use e lo pi_gt_zero in linarith)+
    then have s: "rho * sin phi < 0" using rho by (simp add: mult_pos_neg)
    have "arctan (tan phi) = phi + pi"
      using tan_periodic_pi [of phi] arctan_tan [of "phi + pi"] e lo by simp
    then show ?thesis
      unfolding atan2_def q using c s by simp
  qed
qed

lemma decode_polar:
  assumes rho: "1 / 10 ^ 10 \<le> rho" and lo: "0 \<le> phi" and hi: "phi < 2 * pi"
  shows "decode (rho * cos phi) (rho * sin phi) = phi"
proof -
  have pos: "0 < rho" using rho by (rule less_le_trans [rotated]) simp
  have "(rho * cos phi)\<^sup>2 + (rho * sin phi)\<^sup>2 = rho\<^sup>2 * ((cos phi)\<^sup>2 + (sin phi)\<^sup>2)"
    by (simp only: power_mult_distrib distrib_left)
  then have n: "sqrt ((rho * cos phi)\<^sup>2 + (rho * sin phi)\<^sup>2) = rho"
    using pos by simp
  show ?thesis
  proof (cases "phi \<le> pi")
    case True
    then have "atan2 (rho * sin phi) (rho * cos phi) = phi"
      using atan2_polar [OF pos, of phi] lo pi_gt_zero by simp
    then show ?thesis
      unfolding decode_def n using rho lo by (simp add: Let_def)
  next
    case False
    have "atan2 (rho * sin (phi - 2 * pi)) (rho * cos (phi - 2 * pi)) = phi - 2 * pi"
      by (rule atan2_polar [OF pos]) (use False hi in simp_all)
    then have "atan2 (rho * sin phi) (rho * cos phi) = phi - 2 * pi"
      by (simp add: sin_diff cos_diff)
    then show ?thesis
      unfolding decode_def n using rho hi by (simp add: Let_def)
  qed
qed

section \<open>Ring attractor: the step on rate lists and the symmetry of the ring\<close>

lemma list8:
  assumes "length (r :: 'a list) = 8"
  obtains r0 r1 r2 r3 r4 r5 r6 r7 where "r = [r0, r1, r2, r3, r4, r5, r6, r7]"
  using assms by (auto simp: length_Suc_conv eval_nat_numeral)

lemma length_step_list [simp]: "length (step_list tau dt r) = 8"
  by (simp add: step_list_def)

lemma length_rot8 [simp]: "length r = 8 \<Longrightarrow> length (rot8 r) = 8"
  by (simp add: rot8_def)

lemma length_reset_list [simp]: "length (reset_list h) = 8"
  by (simp add: reset_list_def)

lemma step_as_list:
  assumes "default_weights ra" "length (m_r ra) = 8"
  shows "RingAttractor_step ra dt None 0 g = (ra\<lparr>m_r := step_list (m_tau ra) dt (m_r ra)\<rparr>, g)"
proof -
  from assms(2) obtain r0 r1 r2 r3 r4 r5 r6 r7 where r: "m_r ra = [r0, r1, r2, r3, r4, r5, r6, r7]"
    by (rule list8)
  show ?thesis
    unfolding step_explicit [OF assms(1) r] by (simp add: r step_list_def inh_list_def)
qed

lemma default_weights_update [simp]: "default_weights (ra\<lparr>m_r := r\<rparr>) = default_weights ra"
  by (simp add: default_weights_def)

lemma quiet_steps_as_list:
  assumes "default_weights ra" "length (m_r ra) = 8"
  shows "quiet_steps n dt ra g = (ra\<lparr>m_r := (step_list (m_tau ra) dt ^^ n) (m_r ra)\<rparr>, g)"
proof (induction n)
  case 0
  show ?case by (simp add: quiet_steps_def)
next
  case (Suc n)
  have "length ((step_list (m_tau ra) dt ^^ n) (m_r ra)) = 8"
    using assms(2) by (cases n) simp_all
  then show ?case
    using Suc step_as_list [of "ra\<lparr>m_r := (step_list (m_tau ra) dt ^^ n) (m_r ra)\<rparr>" dt g] assms(1)
    by (simp add: quiet_steps_def)
qed

lemma reset_as_list:
  assumes "m_theta ra = ring_theta" "0 \<le> h"
  shows "RingAttractor_reset ra h g = (ra\<lparr>m_r := reset_list h\<rparr>, g)"
  unfolding reset_explicit [OF assms] by (simp add: reset_list_def)

lemma heading_as_list:
  assumes "m_theta ra = ring_theta" "length (m_r ra) = 8"
  shows "RingAttractor_heading ra = decode (pv_re (m_r ra)) (pv_im (m_r ra))"
proof -
  from assms(2) obtain r0 r1 r2 r3 r4 r5 r6 r7 where r: "m_r ra = [r0, r1, r2, r3, r4, r5, r6, r7]"
    by (rule list8)
  show ?thesis
    unfolding heading_explicit [OF assms(1) r] by (simp add: r pv_re_def pv_im_def)
qed

lemma step_list_rot8:
  assumes "length r = 8"
  shows "step_list tau dt (rot8 r) = rot8 (step_list tau dt r)"
proof -
  from assms obtain r0 r1 r2 r3 r4 r5 r6 r7 where r: "r = [r0, r1, r2, r3, r4, r5, r6, r7]"
    by (rule list8)
  have i: "inh_list (rot8 r) = inh_list r"
    by (simp add: r rot8_def inh_list_def)
  show ?thesis
    unfolding step_list_def i by (simp add: r rot8_def)
qed

lemma funpow_step_list_rot8:
  assumes "length r = 8"
  shows "(step_list tau dt ^^ n) (rot8 r) = rot8 ((step_list tau dt ^^ n) r)"
proof (induction n)
  case 0
  show ?case by simp
next
  case (Suc n)
  have "length ((step_list tau dt ^^ n) r) = 8"
    using assms by (cases n) simp_all
  then show ?case
    using Suc by (simp add: step_list_rot8)
qed

lemma half_sqrt2: "sqrt 2 * sqrt 2 = (2::real)" "sqrt 2 * (sqrt 2 * x) = 2 * x"
  by simp_all

lemma reset_list_rot8: "reset_list (h + pi / 4) = rot8 (reset_list h)"
proof -
  have c: "cos (h + pi / 4) = sqrt 2 / 2 * cos h - sqrt 2 / 2 * sin h"
    and s: "sin (h + pi / 4) = sqrt 2 / 2 * sin h + sqrt 2 / 2 * cos h"
    by (simp_all add: cos_add sin_add cos_45 sin_45 mult.commute)
  show ?thesis
    unfolding reset_list_def c s
    apply (simp add: rot8_def field_simps)
    apply (intro conjI arg_cong [where f = "max 0"])
     apply (simp_all add: field_simps)
    done
qed

lemma pv_rot8:
  assumes "length r = 8"
  shows "pv_re (rot8 r) = sqrt 2 / 2 * (pv_re r - pv_im r)"
    and "pv_im (rot8 r) = sqrt 2 / 2 * (pv_re r + pv_im r)"
proof -
  from assms obtain r0 r1 r2 r3 r4 r5 r6 r7 where r: "r = [r0, r1, r2, r3, r4, r5, r6, r7]"
    by (rule list8)
  show "pv_re (rot8 r) = sqrt 2 / 2 * (pv_re r - pv_im r)"
    by (simp add: r rot8_def pv_re_def pv_im_def field_simps)
  show "pv_im (rot8 r) = sqrt 2 / 2 * (pv_re r + pv_im r)"
    by (simp add: r rot8_def pv_re_def pv_im_def field_simps)
qed

section \<open>Ring attractor: a bump between two units stays where it is\<close>

lemma sqrt2_bounds: "7 / 5 < sqrt 2" "sqrt 2 < 3 / 2"
proof -
  have "sqrt ((7 / 5)\<^sup>2) < sqrt 2"
    by (subst real_sqrt_less_iff) (simp add: power2_eq_square)
  then show "7 / 5 < sqrt 2" by simp
  have "sqrt 2 < sqrt ((3 / 2)\<^sup>2)"
    by (subst real_sqrt_less_iff) (simp add: power2_eq_square)
  then show "sqrt 2 < 3 / 2" by simp
qed

lemma relax_zero: "d \<le> 0 \<Longrightarrow> relax tau dt 0 d = 0"
  by (simp add: relax_def clamp_def)

lemma relax_up:
  assumes "0 < tau" "0 \<le> dt" "0 \<le> a" "a \<le> 1" "a \<le> d"
  shows "a \<le> relax tau dt a d \<and> relax tau dt a d \<le> 1"
proof -
  define x where "x = (- a + clamp d 0 1) / tau * dt"
  have "a \<le> clamp d 0 1" using assms by (simp add: clamp_def)
  then have "0 \<le> x"
    using assms by (simp add: x_def)
  moreover have "relax tau dt a d = clamp (a + x) 0 1"
    by (simp add: relax_def x_def)
  ultimately show ?thesis
    using assms by (simp add: clamp_def)
qed

lemma relax_down:
  assumes "0 < tau" "0 \<le> dt" "0 \<le> b" "b \<le> 1" "d \<le> b"
  shows "0 \<le> relax tau dt b d \<and> relax tau dt b d \<le> b"
proof -
  define x where "x = (- b + clamp d 0 1) / tau * dt"
  have "clamp d 0 1 \<le> b" using assms by (simp add: clamp_def)
  then have "x \<le> 0"
    using assms by (simp add: x_def mult_nonpos_nonneg divide_nonpos_pos)
  moreover have "relax tau dt b d = clamp (b + x) 0 1"
    by (simp add: relax_def x_def)
  ultimately show ?thesis
    using assms by (simp add: clamp_def)
qed

lemma step_pair_bump:
  assumes "0 < tau" "0 \<le> dt" "0 \<le> b" "b \<le> a" "a \<le> 1"
  shows "\<exists>a' b'. step_list tau dt (pair_bump a b) = pair_bump a' b'
           \<and> a \<le> a' \<and> a' \<le> 1 \<and> 0 \<le> b' \<and> b' \<le> b"
proof -
  define i where "i = 9 / 8 * (a + b)"
  have inh: "inh_list (pair_bump a b) = i"
    by (simp add: inh_list_def pair_bump_def i_def)
  define sa where "sa = sqrt 2 * a"
  define sb where "sb = sqrt 2 * b"
  define dA where "dA = 3 / 2 * a + 3 * sqrt 2 / 4 * (b + a) - i"
  define dB where "dB = 3 / 2 * b + 3 * sqrt 2 / 4 * a - i"
  have a0: "0 \<le> a" using assms by simp
  from sqrt2_bounds have s2: "7 / 5 \<le> sqrt 2" "sqrt 2 \<le> 3 / 2" by simp_all
  have sa: "7 / 5 * a \<le> sa" "sa \<le> 3 / 2 * a"
    unfolding sa_def by (rule mult_right_mono [OF s2(1) a0], rule mult_right_mono [OF s2(2) a0])
  have sb: "7 / 5 * b \<le> sb" "sb \<le> 3 / 2 * b"
    unfolding sb_def
    by (rule mult_right_mono [OF s2(1) assms(3)], rule mult_right_mono [OF s2(2) assms(3)])
  have dA: "dA = 3 / 2 * a + 3 / 4 * (sb + sa) - 9 / 8 * (a + b)"
    and dB: "dB = 3 / 2 * b + 3 / 4 * sa - 9 / 8 * (a + b)"
    and d3: "3 * sqrt 2 / 4 * b - i = 3 / 4 * sb - 9 / 8 * (a + b)"
    by (simp_all add: dA_def dB_def i_def sa_def sb_def algebra_simps)
  have up: "a \<le> dA"
    unfolding dA using sa sb assms(3-5) by argo
  have down: "dB \<le> b"
    unfolding dB using sa sb assms(3-5) by argo
  have z1: "3 * sqrt 2 / 4 * b - i \<le> 0"
    unfolding d3 using sa sb assms(3-5) by argo
  have z2: "- i \<le> 0"
    using a0 assms unfolding i_def by simp
  have "step_list tau dt (pair_bump a b)
        = pair_bump (relax tau dt a dA) (relax tau dt b dB)"
    unfolding step_list_def inh
    using relax_zero [OF z1, of tau dt] relax_zero [OF z2, of tau dt]
    by (simp add: pair_bump_def dA_def dB_def add.commute)
  moreover have "a \<le> relax tau dt a dA \<and> relax tau dt a dA \<le> 1"
    by (rule relax_up) (use assms a0 up in simp_all)
  moreover have "0 \<le> relax tau dt b dB \<and> relax tau dt b dB \<le> b"
    by (rule relax_down) (use assms down in simp_all)
  ultimately show ?thesis by blast
qed

lemma steps_pair_bump:
  assumes "0 < tau" "0 \<le> dt" "0 \<le> b" "b \<le> a" "a \<le> 1"
  shows "\<exists>a' b'. (step_list tau dt ^^ n) (pair_bump a b) = pair_bump a' b'
           \<and> a \<le> a' \<and> a' \<le> 1 \<and> 0 \<le> b' \<and> b' \<le> a'"
proof (induction n)
  case 0
  show ?case using assms by auto
next
  case (Suc n)
  then obtain a1 b1 where s: "(step_list tau dt ^^ n) (pair_bump a b) = pair_bump a1 b1"
    and i: "a \<le> a1" "a1 \<le> 1" "0 \<le> b1" "b1 \<le> a1"
    by blast
  from step_pair_bump [OF assms(1,2) i(3,4,2)]
  obtain a2 b2 where "step_list tau dt (pair_bump a1 b1) = pair_bump a2 b2"
    "a1 \<le> a2" "a2 \<le> 1" "0 \<le> b2" "b2 \<le> b1"
    by blast
  with s i show ?case
    by (intro exI [of _ a2] exI [of _ b2]) simp
qed

lemma pi8:
  shows pi8_pos: "0 < cos (pi / 8)" "0 < sin (pi / 8)"
    and pi8_sum: "sqrt 2 / 2 * cos (pi / 8) + sqrt 2 / 2 * sin (pi / 8) = cos (pi / 8)"
    and pi8_diff: "sqrt 2 / 2 * cos (pi / 8) - sqrt 2 / 2 * sin (pi / 8) = sin (pi / 8)"
    and pi8_cc: "2 * (cos (pi / 8) * cos (pi / 8)) = 1 + sqrt 2 / 2"
    and pi8_ss: "2 * (sin (pi / 8) * sin (pi / 8)) = 1 - sqrt 2 / 2"
    and pi8_cs: "2 * (cos (pi / 8) * sin (pi / 8)) = sqrt 2 / 2"
proof -
  show "0 < cos (pi / 8)" by (rule cos_gt_zero_pi) (use pi_gt_zero in simp_all)
  show "0 < sin (pi / 8)" by (rule sin_gt_zero) (use pi_gt_zero in simp_all)
  have e: "pi / 4 - pi / 8 = pi / 8" by simp
  show "sqrt 2 / 2 * cos (pi / 8) + sqrt 2 / 2 * sin (pi / 8) = cos (pi / 8)"
    using cos_diff [of "pi / 4" "pi / 8"] unfolding e cos_45 sin_45 by simp
  show "sqrt 2 / 2 * cos (pi / 8) - sqrt 2 / 2 * sin (pi / 8) = sin (pi / 8)"
    using sin_diff [of "pi / 4" "pi / 8"] unfolding e cos_45 sin_45 by simp
  have d: "2 * (pi / 8) = pi / 4" by simp
  have "sqrt 2 / 2 = 2 * (cos (pi / 8) * cos (pi / 8)) - 1"
    using cos_double_cos [of "pi / 8"] unfolding d cos_45 power2_eq_square .
  then show cc: "2 * (cos (pi / 8) * cos (pi / 8)) = 1 + sqrt 2 / 2"
    by linarith
  show "2 * (sin (pi / 8) * sin (pi / 8)) = 1 - sqrt 2 / 2"
    using cc sin_cos_squared_add3 [of "pi / 8"] by linarith
  have "sqrt 2 / 2 = 2 * sin (pi / 8) * cos (pi / 8)"
    using sin_double [of "pi / 8"] unfolding d sin_45 .
  then show "2 * (cos (pi / 8) * sin (pi / 8)) = sqrt 2 / 2"
    by (simp only: mult.assoc mult.commute [of "sin (pi / 8)"])
qed

lemma reset_list_pi8: "reset_list (pi / 8) = pair_bump (cos (pi / 8) / 2) (sin (pi / 8) / 2)"
proof -
  have m: "sqrt 2 / 2 * sin (pi / 8) - sqrt 2 / 2 * cos (pi / 8) = - sin (pi / 8)"
    "- (sqrt 2 / 2 * cos (pi / 8)) - sqrt 2 / 2 * sin (pi / 8) = - cos (pi / 8)"
    using pi8_sum pi8_diff by simp_all
  show ?thesis
    unfolding reset_list_def pi8_sum pi8_diff m pair_bump_def
    using pi8_pos by (simp add: max_def)
qed

lemma pv_pair_bump:
  "pv_re (pair_bump a b) = 2 * (a * cos (pi / 8) + b * sin (pi / 8)) * cos (pi / 8)"
  "pv_im (pair_bump a b) = 2 * (a * cos (pi / 8) + b * sin (pi / 8)) * sin (pi / 8)"
proof -
  have l: "pv_re (pair_bump a b) = a * (1 + sqrt 2 / 2) + b * (sqrt 2 / 2)"
    by (simp add: pv_re_def pair_bump_def field_simps)
  have r: "2 * (a * cos (pi / 8) + b * sin (pi / 8)) * cos (pi / 8)
        = a * (2 * (cos (pi / 8) * cos (pi / 8))) + b * (2 * (cos (pi / 8) * sin (pi / 8)))"
    by (simp add: algebra_simps)
  show "pv_re (pair_bump a b) = 2 * (a * cos (pi / 8) + b * sin (pi / 8)) * cos (pi / 8)"
    unfolding l r pi8_cc pi8_cs ..
  have l: "pv_im (pair_bump a b) = a * (sqrt 2 / 2) + b * (1 - sqrt 2 / 2)"
    by (simp add: pv_im_def pair_bump_def field_simps)
  have r: "2 * (a * cos (pi / 8) + b * sin (pi / 8)) * sin (pi / 8)
        = a * (2 * (cos (pi / 8) * sin (pi / 8))) + b * (2 * (sin (pi / 8) * sin (pi / 8)))"
    by (simp add: algebra_simps)
  show "pv_im (pair_bump a b) = 2 * (a * cos (pi / 8) + b * sin (pi / 8)) * sin (pi / 8)"
    unfolding l r pi8_ss pi8_cs ..
qed

lemma init_bump_keeps:
  "m_theta (fst (init_bump ra g)) = m_theta ra"
  "m_W_exc (fst (init_bump ra g)) = m_W_exc ra"
  "m_tau (fst (init_bump ra g)) = m_tau ra"
  "m_w_inh (fst (init_bump ra g)) = m_w_inh ra"
  "m_threshold (fst (init_bump ra g)) = m_threshold ra"
  "m_r_max (fst (init_bump ra g)) = m_r_max ra"
  "m_noise_sigma (fst (init_bump ra g)) = m_noise_sigma ra"
  by (simp_all add: init_bump_def split: prod.splits)

lemma init_connectivity_keeps:
  "m_tau (init_connectivity ra) = m_tau ra"
  "m_w_inh (init_connectivity ra) = m_w_inh ra"
  "m_threshold (init_connectivity ra) = m_threshold ra"
  "m_r_max (init_connectivity ra) = m_r_max ra"
  "m_noise_sigma (init_connectivity ra) = m_noise_sigma ra"
  by (simp_all add: init_connectivity_def Let_def)

lemma new_RingAttractor_default:
  "default_weights (fst (new_RingAttractor tau (3 / 2) (9 / 2) g_mag g_omega 0 1 0 g))"
  "m_tau (fst (new_RingAttractor tau (3 / 2) (9 / 2) g_mag g_omega 0 1 0 g)) = tau"
proof -
  define ra0 where "ra0 = \<lparr> m_tau = tau, m_w_exc = 3 / 2, m_w_inh = 9 / 2, m_g_mag = g_mag,
            m_g_omega = g_omega, m_threshold = 0, m_r_max = 1,
            m_noise_sigma = 0, m_theta = replicate N 0,
            m_W_exc = replicate N (replicate N 0), m_r = replicate N 0 \<rparr>"
  have n: "new_RingAttractor tau (3 / 2) (9 / 2) g_mag g_omega 0 1 0 g
           = init_bump ((init_connectivity ra0)\<lparr>m_r := replicate N 0\<rparr>) g"
    by (simp add: new_RingAttractor_def ra0_def)
  have c: "m_theta (init_connectivity ra0) = ring_theta" "m_W_exc (init_connectivity ra0) = ring_W"
    by (rule init_connectivity_default; simp add: ra0_def)+
  show "default_weights (fst (new_RingAttractor tau (3 / 2) (9 / 2) g_mag g_omega 0 1 0 g))"
    unfolding n default_weights_def init_bump_keeps
    by (simp add: c init_connectivity_keeps) (simp add: ra0_def)
  show "m_tau (fst (new_RingAttractor tau (3 / 2) (9 / 2) g_mag g_omega 0 1 0 g)) = tau"
    unfolding n init_bump_keeps by (simp add: init_connectivity_keeps) (simp add: ra0_def)
qed

lemma length_funpow_rot8: "length r = 8 \<Longrightarrow> length ((rot8 ^^ k) r) = 8"
  by (induction k) simp_all

lemma length_funpow_step_list: "length r = 8 \<Longrightarrow> length ((step_list tau dt ^^ n) r) = 8"
  by (cases n) simp_all

lemma reset_list_funpow_rot8: "reset_list (h + real k * (pi / 4)) = (rot8 ^^ k) (reset_list h)"
proof (induction k)
  case 0
  show ?case by simp
next
  case (Suc k)
  have e: "h + real (Suc k) * (pi / 4) = (h + real k * (pi / 4)) + pi / 4"
    by (simp add: algebra_simps)
  show ?case
    unfolding e reset_list_rot8 Suc by simp
qed

lemma funpow_step_list_funpow_rot8:
  assumes "length r = 8"
  shows "(step_list tau dt ^^ n) ((rot8 ^^ k) r) = (rot8 ^^ k) ((step_list tau dt ^^ n) r)"
proof (induction k)
  case 0
  show ?case by simp
next
  case (Suc k)
  have "length ((rot8 ^^ k) r) = 8" using assms by (rule length_funpow_rot8)
  then show ?case
    using Suc by (simp add: funpow_step_list_rot8)
qed

lemma pv_funpow_rot8:
  assumes "length r = 8" "pv_re r = rho * cos phi" "pv_im r = rho * sin phi"
  shows "pv_re ((rot8 ^^ k) r) = rho * cos (phi + real k * (pi / 4))
       \<and> pv_im ((rot8 ^^ k) r) = rho * sin (phi + real k * (pi / 4))"
proof (induction k)
  case 0
  show ?case using assms by simp
next
  case (Suc k)
  have len: "length ((rot8 ^^ k) r) = 8" using assms(1) by (rule length_funpow_rot8)
  have e: "phi + real (Suc k) * (pi / 4) = (phi + real k * (pi / 4)) + pi / 4"
    by (simp add: algebra_simps)
  show ?case
    unfolding e cos_add [of _ "pi / 4"] sin_add [of _ "pi / 4"] cos_45 sin_45
    using Suc by (simp add: pv_rot8 [OF len] algebra_simps)
qed

lemma quiet_heading_between_units:
  assumes dw: "default_weights ra" and tau: "0 < m_tau ra" and dt: "0 \<le> dt" and k: "k < 8"
  shows "RingAttractor_heading
           (fst (quiet_steps n dt (fst (RingAttractor_reset ra (pi / 8 + real k * (pi / 4)) g)) g'))
         = pi / 8 + real k * (pi / 4)"
proof -
  define h where "h = pi / 8 + real k * (pi / 4)"
  define p where "p = cos (pi / 8)"
  define q where "q = sin (pi / 8)"
  have th: "m_theta ra = ring_theta" using dw by (simp add: default_weights_def)
  have h0: "0 \<le> h" unfolding h_def using pi_gt_zero by simp
  have "real k \<le> 7" using k by simp
  then have "real k * (pi / 4) \<le> 7 * (pi / 4)"
    using pi_gt_zero by (intro mult_right_mono) simp_all
  then have h2: "h < 2 * pi" unfolding h_def using pi_gt_zero by linarith
  have pq: "0 < p" "0 < q" unfolding p_def q_def by (rule pi8_pos)+
  have "sqrt 2 / 2 * (p - q) = q"
    using pi8_diff unfolding p_def q_def by (simp add: algebra_simps)
  then have "0 < sqrt 2 / 2 * (p - q)" using pq by simp
  then have qp: "q \<le> p" by (simp add: zero_less_mult_iff)
  have p1: "p \<le> 1" unfolding p_def by simp
  obtain a b where s: "(step_list (m_tau ra) dt ^^ n) (pair_bump (p / 2) (q / 2)) = pair_bump a b"
    and ab: "p / 2 \<le> a" "a \<le> 1" "0 \<le> b" "b \<le> a"
    using steps_pair_bump [OF tau dt, of "q / 2" "p / 2" n] pq qp p1 by auto
  define rho where "rho = 2 * (a * p + b * q)"
  have "p * p \<le> 2 * (a * p)" using ab(1) pq by simp
  moreover have "1 / 2 \<le> p * p"
    using pi8_cc real_sqrt_ge_zero [of 2] unfolding p_def by linarith
  moreover have "0 \<le> b * q" using ab pq by simp
  ultimately have "1 / 2 \<le> rho" unfolding rho_def by simp
  then have rho: "1 / 10 ^ 10 \<le> rho" by simp
  define R where "R = (step_list (m_tau ra) dt ^^ n) (reset_list h)"
  have "reset_list h = (rot8 ^^ k) (pair_bump (p / 2) (q / 2))"
    unfolding h_def reset_list_funpow_rot8 reset_list_pi8 p_def q_def ..
  then have R: "R = (rot8 ^^ k) (pair_bump a b)"
    unfolding R_def by (simp add: funpow_step_list_funpow_rot8 pair_bump_def s [unfolded pair_bump_def])
  have pv: "pv_re R = rho * cos h \<and> pv_im R = rho * sin h"
    unfolding R h_def
    by (rule pv_funpow_rot8) (simp_all add: pair_bump_def [of a b, symmetric] pv_pair_bump rho_def p_def q_def, simp add: pair_bump_def)
  have len: "length R = 8" unfolding R_def by (rule length_funpow_step_list) simp
  have "fst (RingAttractor_reset ra h g) = ra\<lparr>m_r := reset_list h\<rparr>"
    by (simp add: reset_as_list [OF th h0])
  then have "fst (quiet_steps n dt (fst (RingAttractor_reset ra h g)) g') = ra\<lparr>m_r := R\<rparr>"
    using dw by (simp add: quiet_steps_as_list R_def)
  then have "RingAttractor_heading (fst (quiet_steps n dt (fst (RingAttractor_reset ra h g)) g'))
             = decode (pv_re R) (pv_im R)"
    using th len by (simp add: heading_as_list)
  also have "\<dots> = h"
    using pv decode_polar [OF rho h0 h2] by simp
  finally show ?thesis unfolding h_def .
qed

text \<open>
  Claim C6.  As worded (for every heading \<open>h \<ge> 0\<close>, \<^verbatim>\<open>heading()\<close> stays within a small
  tolerance of \<open>h\<close>) the claim does not hold; the counterexample is at the end of the
  theory.  What holds is bump stability for the headings that lie midway between two
  adjacent preferred directions: with the default weights (\<open>w_exc = 1.5\<close>, \<open>w_inh = 4.5\<close>,
  \<open>threshold = 0\<close>, \<open>r_max = 1\<close>) and zero noise, for every time constant \<open>tau > 0\<close>, every
  time step \<open>dt \<ge> 0\<close> and every \<open>h = \<pi>/8 + k * \<pi>/4\<close> with \<open>k = 0, \<dots>, 7\<close>, after
  \<^verbatim>\<open>reset(h)\<close> and any number \<open>n\<close> of \<^verbatim>\<open>step(dt)\<close> calls with a null compass input and zero
  angular velocity, \<^verbatim>\<open>heading()\<close> is exactly \<open>h\<close>.
\<close>

theorem bump_between_units_is_stable:
  assumes "0 < tau" "0 \<le> dt" "k < 8"
  shows "bump_scenario tau (pi / 8 + real k * (pi / 4)) dt n g = pi / 8 + real k * (pi / 4)"
proof -
  obtain ra g1 where n: "new_RingAttractor tau (3 / 2) (9 / 2) 2 (1 / 2) 0 1 0 g = (ra, g1)"
    by (cases "new_RingAttractor tau (3 / 2) (9 / 2) 2 (1 / 2) 0 1 0 g")
  have dw: "default_weights ra" and tau: "m_tau ra = tau"
    using new_RingAttractor_default [of tau 2 "1 / 2" g] unfolding n by simp_all
  obtain ra1 g2 where r: "RingAttractor_reset ra (pi / 8 + real k * (pi / 4)) g1 = (ra1, g2)"
    by (cases "RingAttractor_reset ra (pi / 8 + real k * (pi / 4)) g1")
  have "RingAttractor_heading (fst (quiet_steps n dt (fst (RingAttractor_reset ra (pi / 8 + real k * (pi / 4)) g1)) g2))
         = pi / 8 + real k * (pi / 4)"
    by (rule quiet_heading_between_units [OF dw _ assms(2,3)]) (simp add: tau assms(1))
  then show ?thesis
    unfolding bump_scenario_def using n r by simp
qed

theorem bump_between_units_witness:
  "(0::real) < 0.05 \<and> (0::real) \<le> 0.01 \<and> (3::nat) < 8
   \<and> bump_scenario 0.05 (pi / 8 + real 3 * (pi / 4)) 0.01 100 (const_rng 0) = pi / 8 + real 3 * (pi / 4)"
  using bump_between_units_is_stable [of "0.05" "0.01" 3 100 "const_rng 0"] by simp

section \<open>Ring attractor: a bump beside a unit drifts\<close>

lemma sqrt2_tight: "141421 / 100000 < sqrt 2" "sqrt 2 < 141422 / 100000"
proof -
  have "sqrt ((141421 / 100000)\<^sup>2) < sqrt 2"
    by (subst real_sqrt_less_iff) (simp add: power2_eq_square)
  then show "141421 / 100000 < sqrt 2" by simp
  have "sqrt 2 < sqrt ((141422 / 100000)\<^sup>2)"
    by (subst real_sqrt_less_iff) (simp add: power2_eq_square)
  then show "sqrt 2 < 141422 / 100000" by simp
qed

lemma val_bounds: "real_of_rat (q_lo x) \<le> val x" "val x \<le> real_of_rat (q_hi x)"
proof -
  obtain a b where x: "x = (a, b)" by (cases x)
  from sqrt2_tight have s: "141421 / 100000 \<le> sqrt 2" "sqrt 2 \<le> 141422 / 100000" by simp_all
  show "real_of_rat (q_lo x) \<le> val x"
  proof (cases "0 \<le> b")
    case True
    then have "0 \<le> real_of_rat b" by simp
    then have "real_of_rat b * (141421 / 100000) \<le> real_of_rat b * sqrt 2"
      using s(1) by (rule mult_left_mono [rotated])
    then show ?thesis using True by (simp add: x q_lo_def val_def of_rat_add of_rat_mult of_rat_divide)
  next
    case False
    then have "real_of_rat b \<le> 0" by simp
    then have "real_of_rat b * (141422 / 100000) \<le> real_of_rat b * sqrt 2"
      using s(2) by (rule mult_left_mono_neg [rotated])
    then show ?thesis using False by (simp add: x q_lo_def val_def of_rat_add of_rat_mult of_rat_divide)
  qed
  show "val x \<le> real_of_rat (q_hi x)"
  proof (cases "0 \<le> b")
    case True
    then have "0 \<le> real_of_rat b" by simp
    then have "real_of_rat b * sqrt 2 \<le> real_of_rat b * (141422 / 100000)"
      using s(2) by (rule mult_left_mono [rotated])
    then show ?thesis using True by (simp add: x q_hi_def val_def of_rat_add of_rat_mult of_rat_divide)
  next
    case False
    then have "real_of_rat b \<le> 0" by simp
    then have "real_of_rat b * sqrt 2 \<le> real_of_rat b * (141421 / 100000)"
      using s(1) by (rule mult_left_mono_neg [rotated])
    then show ?thesis using False by (simp add: x q_hi_def val_def of_rat_add of_rat_mult of_rat_divide)
  qed
qed

lemma val_simps [simp]: "val (0, 0) = 0" "val (1, 0) = 1"
  by (simp_all add: val_def)

lemma q_clamp_sound:
  assumes "q_clamp x = Some y"
  shows "clamp (val x) 0 1 = val y"
proof -
  have le0: "q_hi x \<le> 0 \<Longrightarrow> val x \<le> 0"
    using val_bounds(2) [of x] by (metis of_rat_0 of_rat_less_eq order_trans)
  have ge1: "1 \<le> q_lo x \<Longrightarrow> 1 \<le> val x"
    using val_bounds(1) [of x] by (metis of_rat_1 of_rat_less_eq order_trans)
  have ge0: "0 \<le> q_lo x \<Longrightarrow> 0 \<le> val x"
    using val_bounds(1) [of x] by (metis of_rat_0 of_rat_less_eq order_trans)
  have le1: "q_hi x \<le> 1 \<Longrightarrow> val x \<le> 1"
    using val_bounds(2) [of x] by (metis of_rat_1 of_rat_less_eq order_trans)
  show ?thesis
    using assms le0 ge1 ge0 le1
    by (auto simp: q_clamp_def clamp_def split: if_splits)
qed

lemma relax_same: "tau \<noteq> 0 \<Longrightarrow> relax tau tau r d = clamp d 0 1"
  by (simp add: relax_def clamp_def)

lemma val_drive:
  "val (q_drive xs jm j jp)
     = 3 / 2 * val (xs ! j) + 3 * sqrt 2 / 4 * (val (xs ! jm) + val (xs ! jp))
         - 9 / 2 * ((val (xs ! 0) + val (xs ! 1) + val (xs ! 2) + val (xs ! 3)
                     + val (xs ! 4) + val (xs ! 5) + val (xs ! 6) + val (xs ! 7)) / 8)"
  by (simp add: q_drive_def val_def of_rat_add of_rat_diff of_rat_mult of_rat_divide
      field_simps half_sqrt2)

lemma q_step_sound:
  assumes "length xs = 8" "q_step xs = Some ys" "tau \<noteq> 0"
  shows "step_list tau tau (map val xs) = map val ys \<and> length ys = 8"
proof -
  from assms(1) obtain x0 x1 x2 x3 x4 x5 x6 x7 where xs: "xs = [x0, x1, x2, x3, x4, x5, x6, x7]"
    by (rule list8)
  from assms(2) obtain y0 y1 y2 y3 y4 y5 y6 y7 where
    y: "q_clamp (q_drive xs 7 0 1) = Some y0" "q_clamp (q_drive xs 0 1 2) = Some y1"
       "q_clamp (q_drive xs 1 2 3) = Some y2" "q_clamp (q_drive xs 2 3 4) = Some y3"
       "q_clamp (q_drive xs 3 4 5) = Some y4" "q_clamp (q_drive xs 4 5 6) = Some y5"
       "q_clamp (q_drive xs 5 6 7) = Some y6" "q_clamp (q_drive xs 6 7 0) = Some y7"
    and ys: "ys = [y0, y1, y2, y3, y4, y5, y6, y7]"
    by (auto simp: q_step_def split: bind_splits)
  note c = y [THEN q_clamp_sound, unfolded val_drive]
  show ?thesis
    unfolding step_list_def relax_same [OF assms(3)] ys inh_list_def
    using c by (simp add: xs)
qed

lemma q_steps_sound:
  assumes "tau \<noteq> 0"
  shows "length xs = 8 \<Longrightarrow> q_steps n xs = Some ys
         \<Longrightarrow> (step_list tau tau ^^ n) (map val xs) = map val ys"
proof (induction n arbitrary: xs)
  case 0
  then show ?case by simp
next
  case (Suc n)
  from Suc.prems(2) obtain zs where z: "q_step xs = Some zs" and r: "q_steps n zs = Some ys"
    by (auto split: option.splits)
  from q_step_sound [OF Suc.prems(1) z assms]
  have s: "step_list tau tau (map val xs) = map val zs" and l: "length zs = 8" by simp_all
  show ?case
    using Suc.IH [OF l r] s by (simp add: funpow_swap1)
qed

lemma drift_run: "q_steps 11 drift_start = Some drift_end"
  by (simp add: eval_nat_numeral drift_start_def drift_end_def q_step_def q_drive_def q_clamp_def
      q_lo_def q_hi_def)

lemma drift_fixed: "q_step drift_end = Some drift_end"
  by (simp add: drift_end_def q_step_def q_drive_def q_clamp_def q_lo_def q_hi_def)

lemma decode_pair_bump:
  assumes "cos (pi / 8) / 2 \<le> a" "0 \<le> b"
  shows "decode (pv_re (pair_bump a b)) (pv_im (pair_bump a b)) = pi / 8"
proof -
  define rho where "rho = 2 * (a * cos (pi / 8) + b * sin (pi / 8))"
  have "cos (pi / 8) * cos (pi / 8) \<le> 2 * (a * cos (pi / 8))"
    using assms(1) pi8_pos(1) by simp
  moreover have "1 / 2 \<le> cos (pi / 8) * cos (pi / 8)"
    using pi8_cc real_sqrt_ge_zero [of 2] by linarith
  moreover have "0 \<le> b * sin (pi / 8)" using assms(2) pi8_pos(2) by simp
  ultimately have "1 / 2 \<le> rho" unfolding rho_def by simp
  then have rho: "1 / 10 ^ 10 \<le> rho" by simp
  have "decode (rho * cos (pi / 8)) (rho * sin (pi / 8)) = pi / 8"
    by (rule decode_polar [OF rho]) (use pi_gt_zero in simp_all)
  then show ?thesis
    unfolding pv_pair_bump rho_def .
qed

lemma arctan_25_312:
  shows cos_drift: "cos (arctan (25 / 312)) = 312 / 313"
    and sin_drift: "sin (arctan (25 / 312)) = 25 / 313"
    and drift_nonneg: "0 \<le> arctan (25 / 312)"
    and drift_small: "arctan (25 / 312) < pi / 32"
proof -
  have "1 + (25 / 312 :: real)\<^sup>2 = (313 / 312)\<^sup>2"
    by (simp add: power2_eq_square)
  then have r: "sqrt (1 + (25 / 312)\<^sup>2) = 313 / 312"
    by (simp only: real_sqrt_abs)
  show "cos (arctan (25 / 312)) = 312 / 313"
    unfolding cos_arctan r by simp
  show "sin (arctan (25 / 312)) = 25 / 313"
    unfolding sin_arctan r by simp
  show "0 \<le> arctan (25 / 312)"
    using arctan_monotone' [of 0 "25 / 312"] by simp
  have "2 * arctan (25 / 312) = arctan (15600 / 96719)"
    by (subst arctan_double) (simp_all add: power2_eq_square)
  moreover have "2 * arctan (15600 / 96719) = arctan (3017632800 / 9111204961)"
    by (subst arctan_double) (simp_all add: power2_eq_square)
  moreover have "2 * arctan (3017632800 / 9111204961)
                 = arctan (54988541875672641600 / 73907948125715171521)"
    by (subst arctan_double) (simp_all add: power2_eq_square)
  moreover have "arctan (54988541875672641600 / 73907948125715171521) < arctan 1"
    by (rule arctan_monotone) simp
  ultimately show "arctan (25 / 312) < pi / 32"
    unfolding arctan_one by linarith
qed

lemma reset_list_drift: "reset_list (arctan (25 / 312)) = map val drift_start"
  unfolding reset_list_def cos_drift sin_drift
  by (simp add: drift_start_def val_def max_def of_rat_divide field_simps)

lemma drift_end_pair: "map val drift_end = pair_bump 1 0"
  by (simp add: drift_end_def pair_bump_def)

lemma drift_stays:
  assumes "tau \<noteq> 0"
  shows "(step_list tau tau ^^ n) (map val drift_end) = map val drift_end"
proof (induction n)
  case 0
  show ?case by simp
next
  case (Suc n)
  have "step_list tau tau (map val drift_end) = map val drift_end"
    using q_step_sound [OF _ drift_fixed assms] by (simp add: drift_end_def)
  then show ?case using Suc by simp
qed

lemma drift_reached:
  assumes "tau \<noteq> 0"
  shows "(step_list tau tau ^^ (n + 11)) (reset_list (arctan (25 / 312))) = pair_bump 1 0"
proof -
  have a: "(step_list tau tau ^^ 11) (map val drift_start) = map val drift_end"
    by (rule q_steps_sound [OF assms _ drift_run]) (simp add: drift_start_def)
  have "(step_list tau tau ^^ (n + 11)) (map val drift_start)
        = (step_list tau tau ^^ n) ((step_list tau tau ^^ 11) (map val drift_start))"
    by (simp add: funpow_add)
  also have "\<dots> = map val drift_end"
    unfolding a by (rule drift_stays [OF assms])
  finally show ?thesis
    unfolding reset_list_drift drift_end_pair .
qed

text \<open>
  A heading that is not held: \<open>h = arctan (25 / 312)\<close>, about \<open>0.080\<close> rad, with
  \<open>dt = tau = 0.05\<close>.  From the eleventh step on the rates are exactly
  \<open>(1, 1, 0, 0, 0, 0, 0, 0)\<close> and \<^verbatim>\<open>heading()\<close> is \<open>\<pi>/8\<close>, more than \<open>3\<pi>/32\<close> (about \<open>0.29\<close> rad)
  away from \<open>h\<close>, and it stays there.
\<close>

theorem bump_drifts_counterexample:
  "0 \<le> arctan (25 / 312)
   \<and> (\<forall>n. bump_scenario 0.05 (arctan (25 / 312)) 0.05 (n + 11) (const_rng 0) = pi / 8)
   \<and> 3 * pi / 32 < pi / 8 - arctan (25 / 312)"
proof -
  obtain ra g1 where n: "new_RingAttractor (1 / 20) (3 / 2) (9 / 2) 2 (1 / 2) 0 1 0 (const_rng 0) = (ra, g1)"
    by (cases "new_RingAttractor (1 / 20) (3 / 2) (9 / 2) 2 (1 / 2) 0 1 0 (const_rng 0)")
  have dw: "default_weights ra" and tau: "m_tau ra = 1 / 20"
    using new_RingAttractor_default [of "1 / 20" 2 "1 / 2" "const_rng 0"] unfolding n by simp_all
  have th: "m_theta ra = ring_theta" using dw by (simp add: default_weights_def)
  have r: "RingAttractor_reset ra (arctan (25 / 312)) g1 = (ra\<lparr>m_r := reset_list (arctan (25 / 312))\<rparr>, g1)"
    by (rule reset_as_list [OF th drift_nonneg])
  have "RingAttractor_heading (fst (quiet_steps (k + 11) (1 / 20) (ra\<lparr>m_r := reset_list (arctan (25 / 312))\<rparr>) g1)) = pi / 8" for k
  proof -
    have "fst (quiet_steps (k + 11) (1 / 20) (ra\<lparr>m_r := reset_list (arctan (25 / 312))\<rparr>) g1)
          = ra\<lparr>m_r := pair_bump 1 0\<rparr>"
      using dw drift_reached [of "1 / 20" k]
      by (simp add: quiet_steps_as_list tau)
    moreover have "RingAttractor_heading (ra\<lparr>m_r := pair_bump 1 0\<rparr>)
                   = decode (pv_re (pair_bump 1 0)) (pv_im (pair_bump 1 0))"
      using heading_as_list [of "ra\<lparr>m_r := pair_bump 1 0\<rparr>"] th by (simp add: pair_bump_def)
    moreover have "decode (pv_re (pair_bump 1 0)) (pv_im (pair_bump 1 0)) = pi / 8"
    proof (rule decode_pair_bump)
      show "cos (pi / 8) / 2 \<le> 1" using cos_le_one [of "pi / 8"] by linarith
      show "(0::real) \<le> 0" by simp
    qed
    ultimately show ?thesis by simp
  qed
  then have "bump_scenario 0.05 (arctan (25 / 312)) 0.05 (k + 11) (const_rng 0) = pi / 8" for k
    unfolding bump_scenario_def using n r by simp
  then show ?thesis
    using drift_nonneg drift_small by simp
qed

section \<open>Ring attractor: a zero time constant\<close>

lemma init_bump_const:
  assumes "length (m_r ra) = 8"
  shows "m_r (fst (init_bump ra (const_rng z))) = [1 / 2, 7 / 20, 1 / 5, 1 / 20, 0, 1 / 20, 1 / 5, 7 / 20]"
proof -
  from assms obtain r0 r1 r2 r3 r4 r5 r6 r7 where r: "m_r ra = [r0, r1, r2, r3, r4, r5, r6, r7]"
    by (rule list8)
  show ?thesis
    by (simp add: init_bump_def uniform_int_distribution_def r N_def for_loop_def eval_nat_numeral Let_def)
qed

text \<open>
  Claim C9 as stated fails for an attractor built with \<open>tau = 0\<close>, the other parameters
  at their defaults and zero noise.  The constructor's bump (here around unit 0) leaves
  unit 4 at rate 0; its drive is negative, so \<^verbatim>\<open>activated\<close> is 0 and the rate update
  computes \<^verbatim>\<open>(-0 + 0) / 0\<close>: the new rate of unit 4 is NaN, which is not in \<open>[0, r_max]\<close>.
\<close>

theorem step_zero_tau_counterexample:
  "m_tau (fst (new_RingAttractor 0 1.5 4.5 2.0 0.5 0.0 1.0 0.0 (const_rng 0))) = 0
   \<and> length (m_r (fst (new_RingAttractor 0 1.5 4.5 2.0 0.5 0.0 1.0 0.0 (const_rng 0)))) = N
   \<and> 0 \<le> m_r_max (fst (new_RingAttractor 0 1.5 4.5 2.0 0.5 0.0 1.0 0.0 (const_rng 0)))
   \<and> RingAttractor_step_checked (fst (new_RingAttractor 0 1.5 4.5 2.0 0.5 0.0 1.0 0.0 (const_rng 0)))
         0.01 None 0 (const_rng 0) ! 4 = None"
proof -
  define ra where "ra = fst (new_RingAttractor 0 (3 / 2) (9 / 2) 2 (1 / 2) 0 1 0 (const_rng 0))"
  have dw: "default_weights ra" and tau: "m_tau ra = 0"
    unfolding ra_def by (rule new_RingAttractor_default)+
  from dw have f: "m_theta ra = ring_theta" "m_W_exc ra = ring_W" "m_w_inh ra = 9 / 2"
      "m_threshold ra = 0" "m_r_max ra = 1" "m_noise_sigma ra = 0"
    by (simp_all add: default_weights_def)
  have r: "m_r ra = [1 / 2, 7 / 20, 1 / 5, 1 / 20, 0, 1 / 20, 1 / 5, 7 / 20]"
    unfolding ra_def new_RingAttractor_def by (rule init_bump_const) (simp add: N_def)
  have s: "sqrt 2 \<le> 3 / 2" using sqrt2_bounds by simp
  have exc: "excitation ra =
     [3 / 4 + 21 * sqrt 2 / 40, 21 / 40 + 21 * sqrt 2 / 40, 3 / 10 + 3 * sqrt 2 / 10,
      3 / 40 + 3 * sqrt 2 / 20, 3 * sqrt 2 / 40, 3 / 40 + 3 * sqrt 2 / 20,
      3 / 10 + 3 * sqrt 2 / 10, 21 / 40 + 21 * sqrt 2 / 40]"
    by (simp add: excitation_def f r ring_W_def Let_def N_def for_loop_def eval_nat_numeral
        field_simps)
  have inh: "m_w_inh ra * (for_loop N (\<lambda>i m. m + m_r ra ! i) 0 / real N) = 153 / 160"
    by (simp add: f r N_def for_loop_def eval_nat_numeral)
  have noise: "neural_noise ra (const_rng 0) = (replicate N 0, const_rng 0)"
    by (simp add: neural_noise_def f)
  have act: "clamp (3 * sqrt 2 / 40 - 153 / 160) 0 1 = 0"
    using s by (simp add: clamp_def)
  have "RingAttractor_step_checked ra (1 / 100) None 0 (const_rng 0) ! 4 = None"
    unfolding RingAttractor_step_checked_def Let_def inh noise exc
    using act
    by (simp add: magnetic_input_def omega_input_def f r tau N_def for_loop_def eval_nat_numeral
        rate_step_checked_def rate_update_checked_def Let_def)
  then show ?thesis
    using tau f(5) r by (simp add: ra_def N_def)
qed

end
